theory Spec2Isabelle
  imports
    Complex_Main
    "HOL-Library.AList"
    "HOL-Library.Char_ord"
    "HOL-Library.List_Lexorder"
    "HOL-Library.Product_Lexorder"
    "HOL-Library.Multiset"
begin

section \<open>Data model shared by the analyses\<close>

text \<open>
  A community assignment artifact is a JSON object: node id (a string) to
  \<open>{macro_community, micro_community}\<close>. A Python dict keeps insertion order,
  so it is an association list; its keys are pairwise distinct, which the
  theorems assume where they depend on it. Community ids are integers.
  Python floats are modelled by \<open>real\<close>.
\<close>

record assignment =
  macro_community :: int
  micro_community :: int

type_synonym community_map = "(string \<times> assignment) list"

section \<open>DriftDetector.py\<close>

datatype drift_type = MACRO | MICRO

record migration =
  node_id :: string
  from_macro :: int
  to_macro :: int
  from_micro :: int
  to_micro :: int
  drift_type :: drift_type

record drift_summary =
  total_nodes :: nat
  drift_count :: nat
  stability_index :: real

record drift_report =
  stable_nodes :: "string list"
  migrated_nodes :: "migration list"
  new_nodes :: "string list"
  summary :: drift_summary

text \<open>
  One iteration of the loop \<open>for node_id in current_map.keys()\<close>. The entry
  \<open>prev\<close> is a non-empty dict whenever it exists, so \<open>not prev\<close> is
  \<open>prev is None\<close>.
\<close>

definition drift_step :: "community_map \<Rightarrow> string \<times> assignment \<Rightarrow> drift_report \<Rightarrow> drift_report" where
  "drift_step baseline_map item r =
     (case item of (nid, cur) \<Rightarrow>
        (case map_of baseline_map nid of
           None \<Rightarrow> r\<lparr>new_nodes := new_nodes r @ [nid]\<rparr>
         | Some prv \<Rightarrow>
             (let is_macro_drift = (macro_community cur \<noteq> macro_community prv);
                  is_micro_drift = (micro_community cur \<noteq> micro_community prv)
              in if is_macro_drift \<or> is_micro_drift
                 then r\<lparr>migrated_nodes := migrated_nodes r @
                          [\<lparr>node_id = nid,
                            from_macro = macro_community prv,
                            to_macro = macro_community cur,
                            from_micro = micro_community prv,
                            to_micro = micro_community cur,
                            drift_type = (if is_macro_drift then MACRO else MICRO)\<rparr>],
                        summary := (summary r)\<lparr>drift_count := drift_count (summary r) + 1\<rparr>\<rparr>
                 else r\<lparr>stable_nodes := stable_nodes r @ [nid]\<rparr>)))"

definition drift_init :: drift_report where
  "drift_init =
     \<lparr>stable_nodes = [], migrated_nodes = [], new_nodes = [],
      summary = \<lparr>total_nodes = 0, drift_count = 0, stability_index = 0\<rparr>\<rparr>"

definition detect_drift :: "community_map \<Rightarrow> community_map \<Rightarrow> drift_report" where
  "detect_drift current_map baseline_map =
     (let all_node_ids = set (map fst current_map) \<union> set (map fst baseline_map);
          r1 = drift_init\<lparr>summary := (summary drift_init)\<lparr>total_nodes := card all_node_ids\<rparr>\<rparr>;
          r2 = fold (drift_step baseline_map) current_map r1;
          total = total_nodes (summary r2)
      in if total > 0
         then r2\<lparr>summary := (summary r2)
                \<lparr>stability_index := 1 - real (drift_count (summary r2)) / real total\<rparr>\<rparr>
         else r2)"

section \<open>Python built-ins used by the analyses\<close>

text \<open>
  \<open>str(n)\<close> for an integer: the decimal digits, most significant first, with a
  leading minus sign for a negative number.
\<close>

definition digit_char :: "nat \<Rightarrow> char" where
  "digit_char d = char_of (48 + d)"

fun digits :: "nat \<Rightarrow> string" where
  "digits n = (if n < 10 then [digit_char n]
               else digits (n div 10) @ [digit_char (n mod 10)])"

declare digits.simps [simp del]

definition str_int :: "int \<Rightarrow> string" where
  "str_int i = (if i < 0 then CHR ''-'' # digits (nat (- i)) else digits (nat i))"

text \<open>
  \<open>d.get(k, 0)\<close> on a dict of counters, and \<open>xs.sort(key=f, reverse=True)\<close>:
  CPython reverses the list, sorts it stably in ascending order and reverses the result,
  so elements with equal keys keep their original relative order.
\<close>

definition get0 :: "('k \<times> nat) list \<Rightarrow> 'k \<Rightarrow> nat" where
  "get0 d k = (case map_of d k of None \<Rightarrow> 0 | Some n \<Rightarrow> n)"

definition sort_reverse :: "('a \<Rightarrow> 'k::linorder) \<Rightarrow> 'a list \<Rightarrow> 'a list" where
  "sort_reverse f xs = rev (sort_key f (rev xs))"

text \<open>
  \<open>sep.join(xs)\<close>, and \<open>groups[k].append(v)\<close> on a \<open>defaultdict(list)\<close>:
  a missing key starts with the empty list and is inserted at the end of the dict.
\<close>

fun join :: "string \<Rightarrow> string list \<Rightarrow> string" where
  "join sep [] = []"
| "join sep [x] = x"
| "join sep (x # y # ys) = x @ sep @ join sep (y # ys)"

definition group_append :: "('k \<times> 'v list) list \<Rightarrow> 'k \<Rightarrow> 'v \<Rightarrow> ('k \<times> 'v list) list" where
  "group_append groups k v =
     AList.update k ((case map_of groups k of None \<Rightarrow> [] | Some vs \<Rightarrow> vs) @ [v]) groups"

text \<open>
  The exceptions the modelled code can raise, a loop whose body may raise, and the slice
  \<open>xs[:k]\<close>, where a negative \<open>k\<close> counts from the end of the list.
\<close>

datatype py_error = IndexError | KeyError | ValueError

fun for_each :: "('a \<Rightarrow> 's \<Rightarrow> py_error + 's) \<Rightarrow> 'a list \<Rightarrow> 's \<Rightarrow> py_error + 's" where
  "for_each body [] s = Inr s"
| "for_each body (x # xs) s =
     (case body x s of Inl e \<Rightarrow> Inl e | Inr s' \<Rightarrow> for_each body xs s')"

definition py_prefix :: "int \<Rightarrow> 'a list \<Rightarrow> 'a list" where
  "py_prefix k xs = (if 0 \<le> k then take (nat k) xs else take (length xs - nat (- k)) xs)"

text \<open>\<open>xs[i]\<close> for an index that is never negative.\<close>

definition getitem :: "'a list \<Rightarrow> nat \<Rightarrow> py_error + 'a" where
  "getitem xs i = (if i < length xs then Inr (xs ! i) else Inl IndexError)"

section \<open>The projection artifact\<close>

text \<open>
  A row of the projection CSV as the analyses read it back: integer endpoints and a
  weight. The \<open>type\<close> column is read by none of them.
\<close>

record edge_row =
  source :: int
  target :: int
  weight :: real

section \<open>BridgeIdentifier.py\<close>

type_synonym score_dict = "(string \<times> nat) list"
type_synonym bridge_data = "(string \<times> score_dict) list"

record bridge =
  bridge_node_id :: string
  macro_score :: nat
  micro_score :: nat

text \<open>\<open>_update_score\<close>: create the inner dict on first use, then bump the counter.\<close>

definition update_score :: "bridge_data \<Rightarrow> string \<Rightarrow> string \<Rightarrow> bridge_data" where
  "update_score data nid key =
     (let data1 = (if map_of data nid = None then AList.update nid [] data else data);
          scores = (case map_of data1 nid of None \<Rightarrow> [] | Some sc \<Rightarrow> sc)
      in AList.update nid (AList.update key (get0 scores key + 1) scores) data1)"

text \<open>The body of \<open>for _, row in df.iterrows()\<close>.\<close>

definition bridge_step :: "community_map \<Rightarrow> edge_row \<Rightarrow> bridge_data \<Rightarrow> bridge_data" where
  "bridge_step community_map row bridge_data =
     (let src_id = str_int (source row);
          tgt_id = str_int (target row)
      in case map_of community_map src_id of
           None \<Rightarrow> bridge_data
         | Some src_comm \<Rightarrow>
             (case map_of community_map tgt_id of
                None \<Rightarrow> bridge_data
              | Some tgt_comm \<Rightarrow>
                  (let d1 = (if macro_community src_comm \<noteq> macro_community tgt_comm
                             then update_score
                                    (update_score bridge_data src_id ''macro_bridge_score'')
                                    tgt_id ''macro_bridge_score''
                             else bridge_data)
                   in if micro_community src_comm \<noteq> micro_community tgt_comm
                      then update_score
                             (update_score d1 src_id ''micro_bridge_score'')
                             tgt_id ''micro_bridge_score''
                      else d1)))"

definition identify_bridges :: "edge_row list \<Rightarrow> community_map \<Rightarrow> bridge list" where
  "identify_bridges df community_map =
     (let bridge_data = fold (bridge_step community_map) df [];
          bridges = map (\<lambda>(nid, scores).
                       \<lparr>bridge_node_id = nid,
                        macro_score = get0 scores ''macro_bridge_score'',
                        micro_score = get0 scores ''micro_bridge_score''\<rparr>) bridge_data
      in sort_reverse (\<lambda>x. (macro_score x, micro_score x)) bridges)"

text \<open>
  The number of rows that cross a community boundary at node \<open>v\<close>: both endpoints are
  assigned, the communities selected by \<open>lvl\<close> differ, and \<open>v\<close> is an endpoint.
\<close>

definition crossing :: "(assignment \<Rightarrow> int) \<Rightarrow> community_map \<Rightarrow> string \<Rightarrow> edge_row \<Rightarrow> bool" where
  "crossing lvl community_map v row =
     (case map_of community_map (str_int (source row)) of
        None \<Rightarrow> False
      | Some a \<Rightarrow>
          (case map_of community_map (str_int (target row)) of
             None \<Rightarrow> False
           | Some b \<Rightarrow> lvl a \<noteq> lvl b
                       \<and> (v = str_int (source row) \<or> v = str_int (target row))))"

definition crossings :: "(assignment \<Rightarrow> int) \<Rightarrow> community_map \<Rightarrow> edge_row list \<Rightarrow> string \<Rightarrow> nat" where
  "crossings lvl community_map df v = length (filter (crossing lvl community_map v) df)"

definition node_score :: "bridge_data \<Rightarrow> string \<Rightarrow> string \<Rightarrow> nat" where
  "node_score data v key = (case map_of data v of None \<Rightarrow> 0 | Some sc \<Rightarrow> get0 sc key)"

definition mk_bridge :: "string \<times> score_dict \<Rightarrow> bridge" where
  "mk_bridge = (\<lambda>(nid, scores).
       \<lparr>bridge_node_id = nid,
        macro_score = get0 scores ''macro_bridge_score'',
        micro_score = get0 scores ''micro_bridge_score''\<rparr>)"

section \<open>Fingerprinter.py\<close>

text \<open>
  The keys of the loaded JSON object are strings, on which \<open>str\<close> is the identity, so
  the member lists hold the node ids as they are. Python compares strings by code point,
  which is the lexicographic order on the characters. The hash function of
  \<open>hashlib\<close> is a parameter.
\<close>

record fingerprints =
  macro_communities :: "(string \<times> string) list"
  micro_communities :: "(string \<times> string) list"

definition hash_nodes :: "(string \<Rightarrow> string) \<Rightarrow> string list \<Rightarrow> string" where
  "hash_nodes sha256 node_list =
     (let sorted_nodes = sort node_list;
          content = join '','' sorted_nodes
      in sha256 content)"

definition group_step ::
  "string \<times> assignment \<Rightarrow> (int \<times> string list) list \<times> (int \<times> string list) list
     \<Rightarrow> (int \<times> string list) list \<times> (int \<times> string list) list" where
  "group_step item groups =
     (case item of (nid, comms) \<Rightarrow>
        (case groups of (macro_groups, micro_groups) \<Rightarrow>
           (group_append macro_groups (macro_community comms) nid,
            group_append micro_groups (micro_community comms) nid)))"

definition hash_step ::
  "(string \<Rightarrow> string) \<Rightarrow> int \<times> string list \<Rightarrow> (string \<times> string) list \<Rightarrow> (string \<times> string) list" where
  "hash_step sha256 grp fp =
     (case grp of (m_id, nodes) \<Rightarrow> AList.update (str_int m_id) (hash_nodes sha256 nodes) fp)"

definition generate_fingerprints :: "(string \<Rightarrow> string) \<Rightarrow> community_map \<Rightarrow> fingerprints" where
  "generate_fingerprints sha256 community_map =
     (case fold group_step community_map ([], []) of
        (macro_groups, micro_groups) \<Rightarrow>
          \<lparr>macro_communities = fold (hash_step sha256) macro_groups [],
           micro_communities = fold (hash_step sha256) micro_groups []\<rparr>)"

text \<open>The members of community \<open>c\<close> at level \<open>lvl\<close>, in the order of the assignment.\<close>

definition members :: "(assignment \<Rightarrow> int) \<Rightarrow> community_map \<Rightarrow> int \<Rightarrow> string list" where
  "members lvl community_map c = map fst (filter (\<lambda>item. lvl (snd item) = c) community_map)"

section \<open>The graph library\<close>

text \<open>
  \<open>Graph.TupleList\<close> of igraph numbers the vertices in the order in which their
  names first appear in the tuples, source before target; \<open>g.vs['name']\<close> is that
  list. The names are the integer node ids of the rows.
\<close>

definition add_vertex :: "int list \<Rightarrow> int \<Rightarrow> int list" where
  "add_vertex vs v = (if v \<in> set vs then vs else vs @ [v])"

definition vertex_names :: "edge_row list \<Rightarrow> int list" where
  "vertex_names tuples = fold (\<lambda>r vs. add_vertex (add_vertex vs (source r)) (target r)) tuples []"

section \<open>TopologyFilter.py\<close>

text \<open>
  A ranking entry \<open>{node_id, rank, score}\<close>. The PageRank of igraph is a parameter:
  from the tuples of the sub-graph to one score per vertex; \<open>scores[idx]\<close> raises
  \<open>IndexError\<close> when the list is too short.
\<close>

record hub =
  hub_node_id :: string
  hub_rank :: nat
  hub_score :: real

definition trivial_hub :: "string \<Rightarrow> hub" where
  "trivial_hub n = \<lparr>hub_node_id = n, hub_rank = 1, hub_score = 1\<rparr>"

definition comm_edges :: "edge_row list \<Rightarrow> string list \<Rightarrow> edge_row list" where
  "comm_edges edges_df nodes =
     filter (\<lambda>r. str_int (source r) \<in> set nodes \<and> str_int (target r) \<in> set nodes) edges_df"

definition rank_hubs :: "(edge_row list \<Rightarrow> real list) \<Rightarrow> int \<Rightarrow> edge_row list \<Rightarrow> py_error + hub list" where
  "rank_hubs pagerank top_k comm_edges_df =
     (let names = vertex_names comm_edges_df;
          scores = pagerank comm_edges_df
      in if length scores < length names then Inl IndexError
         else
           (let node_scores = map (\<lambda>(idx, name). (str_int name, scores ! idx)) (enumerate 0 names);
                top_hubs = py_prefix top_k (sort_reverse snd node_scores)
            in Inr (map (\<lambda>(rank, h). \<lparr>hub_node_id = fst h, hub_rank = rank, hub_score = snd h\<rparr>)
                      (enumerate 1 top_hubs))))"

text \<open>The body of \<open>for comm_id, nodes in comm_to_nodes.items()\<close>, up to the store.\<close>

definition community_hubs :: "(edge_row list \<Rightarrow> real list) \<Rightarrow> int \<Rightarrow> edge_row list \<Rightarrow> string list \<Rightarrow> py_error + hub list" where
  "community_hubs pagerank top_k edges_df nodes =
     (if length nodes < 2 then Inr (map trivial_hub nodes)
      else
        (let comm_edges_df = comm_edges edges_df nodes
         in if comm_edges_df = [] then Inr (map trivial_hub (py_prefix top_k nodes))
            else rank_hubs pagerank top_k comm_edges_df))"

definition hubs_step ::
  "(edge_row list \<Rightarrow> real list) \<Rightarrow> int \<Rightarrow> edge_row list \<Rightarrow> int \<times> string list
     \<Rightarrow> (string \<times> hub list) list \<Rightarrow> py_error + (string \<times> hub list) list" where
  "hubs_step pagerank top_k edges_df grp hubs =
     (case grp of (comm_id, nodes) \<Rightarrow>
        (case community_hubs pagerank top_k edges_df nodes of
           Inl e \<Rightarrow> Inl e
         | Inr top_hubs \<Rightarrow> Inr (AList.update (str_int comm_id) top_hubs hubs)))"

definition extract_hubs ::
  "(edge_row list \<Rightarrow> real list) \<Rightarrow> int \<Rightarrow> edge_row list \<Rightarrow> community_map
     \<Rightarrow> py_error + (string \<times> hub list) list" where
  "extract_hubs pagerank top_k edges_df community_map =
     (let comm_to_nodes =
            fold (\<lambda>item g. group_append g (micro_community (snd item)) (fst item)) community_map []
      in for_each (hubs_step pagerank top_k edges_df) comm_to_nodes [])"

section \<open>Projector.py\<close>

text \<open>
  The projector object carries \<open>alpha\<close>, \<open>beta\<close> and the similarity threshold.
  \<open>np.linalg.norm\<close> is the Euclidean norm; \<open>np.dot\<close> of two vectors raises
  \<open>ValueError\<close> when their lengths differ. \<open>nodes\<close> is a dict from node id to text,
  \<open>edges\<close> a list of \<open>(source, target)\<close> links.
\<close>

record graph_projector =
  alpha :: real
  beta :: real
  threshold :: real

datatype edge_type = structural | semantic

type_synonym projected_edge = "string \<times> string \<times> real \<times> edge_type"

definition linalg_norm :: "real list \<Rightarrow> real" where
  "linalg_norm v = sqrt (sum_list (map (\<lambda>x. x * x) v))"

definition dot :: "real list \<Rightarrow> real list \<Rightarrow> py_error + real" where
  "dot a b = (if length a \<noteq> length b then Inl ValueError
              else Inr (sum_list (map2 (*) a b)))"

definition cosine_similarity :: "real list \<Rightarrow> real list \<Rightarrow> py_error + real" where
  "cosine_similarity vec_a vec_b =
     (let norm_a = linalg_norm vec_a;
          norm_b = linalg_norm vec_b
      in if norm_a = 0 \<or> norm_b = 0 then Inr 0
         else (case dot vec_a vec_b of
                 Inl e \<Rightarrow> Inl e
               | Inr d \<Rightarrow> Inr (d / (norm_a * norm_b))))"

text \<open>
  The body of the inner loop. The indices \<open>i\<close> and \<open>j\<close> are below
  \<open>len(node_ids)\<close> there, so \<open>node_ids[i]\<close> and \<open>node_ids[j]\<close> exist.
\<close>

definition semantic_step ::
  "graph_projector \<Rightarrow> string list \<Rightarrow> real list list \<Rightarrow> nat \<Rightarrow> nat
     \<Rightarrow> projected_edge list \<Rightarrow> py_error + projected_edge list" where
  "semantic_step self node_ids embeddings i j projected_edges =
     (case getitem embeddings i of
        Inl e \<Rightarrow> Inl e
      | Inr vec_i \<Rightarrow>
          (case getitem embeddings j of
             Inl e \<Rightarrow> Inl e
           | Inr vec_j \<Rightarrow>
               (case cosine_similarity vec_i vec_j of
                  Inl e \<Rightarrow> Inl e
                | Inr sim \<Rightarrow>
                    Inr (if threshold self \<le> sim
                         then projected_edges
                              @ [(node_ids ! i, node_ids ! j, sim * beta self, semantic)]
                         else projected_edges))))"

definition build_projection ::
  "graph_projector \<Rightarrow> (string \<times> string) list \<Rightarrow> (string \<times> string) list \<Rightarrow> real list list
     \<Rightarrow> py_error + projected_edge list" where
  "build_projection self nodes edges embeddings =
     (let node_ids = map fst nodes;
          projected_edges = map (\<lambda>(src, tgt). (src, tgt, alpha self, structural)) edges;
          num_nodes = length node_ids
      in for_each
           (\<lambda>i. for_each (semantic_step self node_ids embeddings i) [i + 1..<num_nodes])
           [0..<num_nodes] projected_edges)"

text \<open>
  The similarity as a number, and the semantic edges of one index pair, for the
  statements below.
\<close>

definition similarity :: "real list \<Rightarrow> real list \<Rightarrow> real" where
  "similarity a b =
     (if linalg_norm a = 0 \<or> linalg_norm b = 0 then 0
      else sum_list (map2 (*) a b) / (linalg_norm a * linalg_norm b))"

definition pair_edges ::
  "graph_projector \<Rightarrow> string list \<Rightarrow> real list list \<Rightarrow> nat \<Rightarrow> nat \<Rightarrow> projected_edge list" where
  "pair_edges self node_ids embeddings i j =
     (if threshold self \<le> similarity (embeddings ! i) (embeddings ! j)
      then [(node_ids ! i, node_ids ! j,
             similarity (embeddings ! i) (embeddings ! j) * beta self, semantic)]
      else [])"

section \<open>LeidenEngineHierarchical.py\<close>

text \<open>
  The engine keeps the sorted resolutions. \<open>find_partition\<close> of leidenalg is a
  parameter: from the tuples of the graph and a resolution to the membership list, one
  community id per vertex; \<open>partition.membership[idx]\<close> raises \<open>IndexError\<close> on a
  list that is too short. The hierarchy map sends the key \<open>str(int(node_name))\<close> to the
  node's path; a level of the tree holds its resolution and the groups of keys by
  community id.
\<close>

record leiden_engine =
  resolutions :: "real list"

definition engine_init :: "real list \<Rightarrow> leiden_engine" where
  "engine_init rs = \<lparr>resolutions = sort rs\<rparr>"

record level_data =
  resolution :: real
  communities :: "(int \<times> string list) list"

type_synonym hierarchical_map = "(string \<times> int list) list"

definition init_map :: "int list \<Rightarrow> hierarchical_map" where
  "init_map names = fold (\<lambda>node_name m. AList.update (str_int node_name) [] m) names []"

text \<open>The body of \<open>for idx, node_name in enumerate(g.vs['name'])\<close>.\<close>

definition level_step ::
  "int list \<Rightarrow> nat \<times> int \<Rightarrow> hierarchical_map \<times> (int \<times> string list) list
     \<Rightarrow> py_error + hierarchical_map \<times> (int \<times> string list) list" where
  "level_step membership item st =
     (case item of (idx, node_name) \<Rightarrow>
        (case st of (hierarchical_map, comms) \<Rightarrow>
           (case getitem membership idx of
              Inl e \<Rightarrow> Inl e
            | Inr comm_id \<Rightarrow>
                (case map_of hierarchical_map (str_int node_name) of
                   None \<Rightarrow> Inl KeyError
                 | Some path \<Rightarrow>
                     Inr (AList.update (str_int node_name) (path @ [comm_id]) hierarchical_map,
                          group_append comms comm_id (str_int node_name))))))"

text \<open>The body of \<open>for i, res in enumerate(self.resolutions)\<close>.\<close>

definition resolution_step ::
  "(edge_row list \<Rightarrow> real \<Rightarrow> int list) \<Rightarrow> edge_row list \<Rightarrow> real
     \<Rightarrow> hierarchical_map \<times> level_data list
     \<Rightarrow> py_error + hierarchical_map \<times> level_data list" where
  "resolution_step find_partition tuples res st =
     (case st of (hierarchical_map, tree_levels) \<Rightarrow>
        (let membership = find_partition tuples res
         in case for_each (level_step membership) (enumerate 0 (vertex_names tuples))
                   (hierarchical_map, []) of
              Inl e \<Rightarrow> Inl e
            | Inr (hierarchical_map', comms) \<Rightarrow>
                Inr (hierarchical_map',
                     tree_levels @ [\<lparr>resolution = res, communities = comms\<rparr>])))"

definition cluster ::
  "leiden_engine \<Rightarrow> (edge_row list \<Rightarrow> real \<Rightarrow> int list) \<Rightarrow> edge_row list
     \<Rightarrow> py_error + hierarchical_map \<times> level_data list" where
  "cluster self find_partition df =
     for_each (resolution_step find_partition df) (resolutions self)
       (init_map (vertex_names df), [])"

text \<open>
  The compatibility map written by \<open>save_results\<close>: \<open>path[0]\<close> and \<open>path[-1]\<close>,
  both of which raise \<open>IndexError\<close> on an empty path.
\<close>

definition compat_step ::
  "string \<times> int list \<Rightarrow> community_map \<Rightarrow> py_error + community_map" where
  "compat_step item compat_map =
     (case item of (nid, path) \<Rightarrow>
        (case path of
           [] \<Rightarrow> Inl IndexError
         | c # cs \<Rightarrow>
             Inr (AList.update nid
                    \<lparr>macro_community = c, micro_community = last (c # cs)\<rparr> compat_map)))"

definition compat_view :: "hierarchical_map \<Rightarrow> py_error + community_map" where
  "compat_view community_map = for_each compat_step community_map []"

section \<open>Properties of drift detection\<close>

definition is_new :: "community_map \<Rightarrow> string \<times> assignment \<Rightarrow> bool" where
  "is_new baseline_map item = (map_of baseline_map (fst item) = None)"

definition is_stable :: "community_map \<Rightarrow> string \<times> assignment \<Rightarrow> bool" where
  "is_stable baseline_map item =
     (case map_of baseline_map (fst item) of
        None \<Rightarrow> False
      | Some prv \<Rightarrow> macro_community (snd item) = macro_community prv
                   \<and> micro_community (snd item) = micro_community prv)"

definition moved :: "community_map \<Rightarrow> string \<times> assignment \<Rightarrow> migration option" where
  "moved baseline_map item =
     (case map_of baseline_map (fst item) of
        None \<Rightarrow> None
      | Some prv \<Rightarrow>
          if macro_community (snd item) \<noteq> macro_community prv
             \<or> micro_community (snd item) \<noteq> micro_community prv
          then Some \<lparr>node_id = fst item,
                     from_macro = macro_community prv,
                     to_macro = macro_community (snd item),
                     from_micro = micro_community prv,
                     to_micro = micro_community (snd item),
                     drift_type = (if macro_community (snd item) \<noteq> macro_community prv
                                   then MACRO else MICRO)\<rparr>
          else None)"

lemma fold_drift_new:
  "new_nodes (fold (drift_step b) xs r) = new_nodes r @ map fst (filter (is_new b) xs)"
  by (induction xs arbitrary: r)
     (auto simp: drift_step_def is_new_def Let_def split: option.splits)

lemma fold_drift_stable:
  "stable_nodes (fold (drift_step b) xs r) = stable_nodes r @ map fst (filter (is_stable b) xs)"
  by (induction xs arbitrary: r)
     (auto simp: drift_step_def is_stable_def Let_def split: option.splits)

lemma fold_drift_migrated:
  "migrated_nodes (fold (drift_step b) xs r)
     = migrated_nodes r @ List.map_filter (moved b) xs"
  by (induction xs arbitrary: r)
     (auto simp: drift_step_def moved_def Let_def split: option.splits)

lemma fold_drift_count:
  "drift_count (summary (fold (drift_step b) xs r))
     = drift_count (summary r) + length (List.map_filter (moved b) xs)"
  by (induction xs arbitrary: r)
     (auto simp: drift_step_def moved_def Let_def split: option.splits)

lemma fold_drift_total:
  "total_nodes (summary (fold (drift_step b) xs r)) = total_nodes (summary r)"
  by (induction xs arbitrary: r)
     (auto simp: drift_step_def Let_def split: option.splits)

lemma new_iff:
  "distinct (map fst xs) \<Longrightarrow> (nid, cur) \<in> set xs \<Longrightarrow>
   nid \<in> set (map fst (filter (is_new b) xs)) \<longleftrightarrow> map_of b nid = None"
  by (force simp: is_new_def)

lemma stable_iff:
  "distinct (map fst xs) \<Longrightarrow> (nid, cur) \<in> set xs \<Longrightarrow>
   nid \<in> set (map fst (filter (is_stable b) xs)) \<longleftrightarrow> is_stable b (nid, cur)"
  by (induction xs) (auto simp: rev_image_eqI)

lemma moved_node_id: "moved b item = Some m \<Longrightarrow> node_id m = fst item"
  by (auto simp: moved_def split: option.splits if_splits)

lemma migrated_filter:
  "distinct (map fst xs) \<Longrightarrow> (nid, cur) \<in> set xs \<Longrightarrow>
   filter (\<lambda>m. node_id m = nid) (List.map_filter (moved b) xs)
     = (case moved b (nid, cur) of None \<Rightarrow> [] | Some m \<Rightarrow> [m])"
proof (induction xs)
  case Nil
  then show ?case by simp
next
  case (Cons x xs)
  have other: "filter (\<lambda>m. node_id m = nid) (List.map_filter (moved b) ys) = []"
    if "nid \<notin> fst ` set ys" for ys
    using that
    by (induction ys) (auto dest: moved_node_id split: option.splits)
  show ?case
  proof (cases "x = (nid, cur)")
    case True
    with Cons.prems have "nid \<notin> fst ` set xs" by auto
    with True other[of xs] show ?thesis
      by (auto dest: moved_node_id split: option.splits)
  next
    case False
    with Cons.prems have in_xs: "(nid, cur) \<in> set xs" and ne: "fst x \<noteq> nid"
      by (auto simp: rev_image_eqI)
    from Cons.IH Cons.prems in_xs ne show ?thesis
      by (auto dest: moved_node_id split: option.splits)
  qed
qed


lemma ratio_le_one: "(k::nat) \<le> n \<Longrightarrow> real k / real n \<le> 1"
  by (cases "n = 0") (simp_all add: divide_le_eq_1_pos)

lemma length_map_filter_le: "length (List.map_filter f xs) \<le> length xs"
  by (induction xs) (auto split: option.splits)

lemma detect_drift_fields:
  "stable_nodes (detect_drift c b) = map fst (filter (is_stable b) c)"
  "new_nodes (detect_drift c b) = map fst (filter (is_new b) c)"
  "migrated_nodes (detect_drift c b) = List.map_filter (moved b) c"
  "drift_count (summary (detect_drift c b)) = length (List.map_filter (moved b) c)"
  "total_nodes (summary (detect_drift c b)) = card (fst ` set c \<union> fst ` set b)"
  by (simp_all add: detect_drift_def Let_def fold_drift_stable fold_drift_new
        fold_drift_migrated fold_drift_count fold_drift_total drift_init_def)

lemma detect_drift_index:
  "stability_index (summary (detect_drift c b)) =
     (if card (fst ` set c \<union> fst ` set b) > 0
      then 1 - real (length (List.map_filter (moved b) c)) / real (card (fst ` set c \<union> fst ` set b))
      else 0)"
  by (simp add: detect_drift_def Let_def fold_drift_count fold_drift_total drift_init_def)

text \<open>
  Claim C3. Every node of the current assignment is classified exactly once: a node
  without baseline entry is new; a node whose macro or micro community differs from the
  baseline yields exactly one migration record with the four ids and the tag
  \<open>MACRO\<close> whenever the macro id differs, \<open>MICRO\<close> otherwise; a node without
  difference is stable. \<open>drift_count\<close> counts the migration records. On the literal
  scenario node 1 is stable, node 2 migrated with tag \<open>MACRO\<close>, node 3 new, and
  \<open>drift_count = 1\<close>.
\<close>

theorem detect_drift_classification:
  "(distinct (map fst current_map) \<and> (nid, cur) \<in> set current_map \<longrightarrow>
      (let R = detect_drift current_map baseline_map;
           recs = filter (\<lambda>m. node_id m = nid) (migrated_nodes R)
       in case map_of baseline_map nid of
            None \<Rightarrow> nid \<in> set (new_nodes R) \<and> nid \<notin> set (stable_nodes R) \<and> recs = []
          | Some prv \<Rightarrow>
              if macro_community cur \<noteq> macro_community prv
                 \<or> micro_community cur \<noteq> micro_community prv
              then recs = [\<lparr>node_id = nid,
                             from_macro = macro_community prv,
                             to_macro = macro_community cur,
                             from_micro = micro_community prv,
                             to_micro = micro_community cur,
                             drift_type = (if macro_community cur \<noteq> macro_community prv
                                           then MACRO else MICRO)\<rparr>]
                   \<and> nid \<notin> set (new_nodes R) \<and> nid \<notin> set (stable_nodes R)
              else nid \<in> set (stable_nodes R) \<and> nid \<notin> set (new_nodes R) \<and> recs = []))
   \<and> drift_count (summary (detect_drift current_map baseline_map))
       = length (migrated_nodes (detect_drift current_map baseline_map))
   \<and> detect_drift
        [(''1'', \<lparr>macro_community = 0, micro_community = 0\<rparr>),
         (''2'', \<lparr>macro_community = 1, micro_community = 1\<rparr>),
         (''3'', \<lparr>macro_community = 1, micro_community = 1\<rparr>)]
        [(''1'', \<lparr>macro_community = 0, micro_community = 0\<rparr>),
         (''2'', \<lparr>macro_community = 0, micro_community = 0\<rparr>)]
      = \<lparr>stable_nodes = [''1''],
         migrated_nodes = [\<lparr>node_id = ''2'', from_macro = 0, to_macro = 1,
                            from_micro = 0, to_micro = 1, drift_type = MACRO\<rparr>],
         new_nodes = [''3''],
         summary = \<lparr>total_nodes = 3, drift_count = 1, stability_index = 2 / 3\<rparr>\<rparr>"
proof (intro conjI impI)
  assume h: "distinct (map fst current_map) \<and> (nid, cur) \<in> set current_map"
  then have d: "distinct (map fst current_map)" and m: "(nid, cur) \<in> set current_map"
    by simp_all
  note n = new_iff[OF d m, of baseline_map]
  note s = stable_iff[OF d m, of baseline_map]
  note f = migrated_filter[OF d m, of baseline_map]
  show "let R = detect_drift current_map baseline_map;
           recs = filter (\<lambda>m. node_id m = nid) (migrated_nodes R)
       in case map_of baseline_map nid of
            None \<Rightarrow> nid \<in> set (new_nodes R) \<and> nid \<notin> set (stable_nodes R) \<and> recs = []
          | Some prv \<Rightarrow>
              if macro_community cur \<noteq> macro_community prv
                 \<or> micro_community cur \<noteq> micro_community prv
              then recs = [\<lparr>node_id = nid,
                             from_macro = macro_community prv,
                             to_macro = macro_community cur,
                             from_micro = micro_community prv,
                             to_micro = micro_community cur,
                             drift_type = (if macro_community cur \<noteq> macro_community prv
                                           then MACRO else MICRO)\<rparr>]
                   \<and> nid \<notin> set (new_nodes R) \<and> nid \<notin> set (stable_nodes R)
              else nid \<in> set (stable_nodes R) \<and> nid \<notin> set (new_nodes R) \<and> recs = []"
    unfolding Let_def detect_drift_fields
    using n s f
    by (simp add: is_stable_def moved_def split: option.splits)
next
  show "drift_count (summary (detect_drift current_map baseline_map))
       = length (migrated_nodes (detect_drift current_map baseline_map))"
    by (simp add: detect_drift_fields)
next
  show "detect_drift
        [(''1'', \<lparr>macro_community = 0, micro_community = 0\<rparr>),
         (''2'', \<lparr>macro_community = 1, micro_community = 1\<rparr>),
         (''3'', \<lparr>macro_community = 1, micro_community = 1\<rparr>)]
        [(''1'', \<lparr>macro_community = 0, micro_community = 0\<rparr>),
         (''2'', \<lparr>macro_community = 0, micro_community = 0\<rparr>)]
      = \<lparr>stable_nodes = [''1''],
         migrated_nodes = [\<lparr>node_id = ''2'', from_macro = 0, to_macro = 1,
                            from_micro = 0, to_micro = 1, drift_type = MACRO\<rparr>],
         new_nodes = [''3''],
         summary = \<lparr>total_nodes = 3, drift_count = 1, stability_index = 2 / 3\<rparr>\<rparr>"
  proof -
    have c3: "card (set (map fst [(''1'', \<lparr>macro_community = 0, micro_community = 0\<rparr>),
         (''2'', \<lparr>macro_community = 1, micro_community = 1\<rparr>),
         (''3'', \<lparr>macro_community = 1, micro_community = 1\<rparr>)]) \<union> set (map fst
        [(''1'', \<lparr>macro_community = 0, micro_community = 0\<rparr>),
         (''2'', \<lparr>macro_community = 0, micro_community = 0\<rparr>)])) = 3"
      by (simp add: card_insert_if)
    show ?thesis
      unfolding detect_drift_def Let_def c3
      by (simp add: drift_step_def drift_init_def)
  qed
qed

theorem detect_drift_classification_witness:
  "distinct (map fst
      [(''1'', \<lparr>macro_community = 0, micro_community = 0\<rparr>),
       (''2'', \<lparr>macro_community = 0, micro_community = 1\<rparr>)])
   \<and> (''2'', \<lparr>macro_community = 0, micro_community = 1\<rparr>)
       \<in> set [(''1'', \<lparr>macro_community = 0, micro_community = 0\<rparr>),
               (''2'', \<lparr>macro_community = 0, micro_community = 1\<rparr>)]
   \<and> filter (\<lambda>m. node_id m = ''2'')
         (migrated_nodes (detect_drift
            [(''1'', \<lparr>macro_community = 0, micro_community = 0\<rparr>),
             (''2'', \<lparr>macro_community = 0, micro_community = 1\<rparr>)]
            [(''2'', \<lparr>macro_community = 0, micro_community = 0\<rparr>)]))
       = [\<lparr>node_id = ''2'', from_macro = 0, to_macro = 0,
            from_micro = 0, to_micro = 1, drift_type = MICRO\<rparr>]"
  using detect_drift_classification
    [where current_map = "[(''1'', \<lparr>macro_community = 0, micro_community = 0\<rparr>),
                           (''2'', \<lparr>macro_community = 0, micro_community = 1\<rparr>)]"
       and baseline_map = "[(''2'', \<lparr>macro_community = 0, micro_community = 0\<rparr>)]"
       and nid = "''2''" and cur = "\<lparr>macro_community = 0, micro_community = 1\<rparr>"]
  by (simp add: Let_def)

text \<open>
  Claim C4. \<open>total_nodes\<close> is the size of the union of the node ids of both
  assignments; \<open>stability_index\<close> is \<open>1 - drift_count / total_nodes\<close> when
  \<open>total_nodes > 0\<close> and \<open>0\<close> otherwise; it lies between 0 and 1.
\<close>

theorem detect_drift_summary:
  "total_nodes (summary (detect_drift current_map baseline_map))
      = card (set (map fst current_map) \<union> set (map fst baseline_map))
   \<and> stability_index (summary (detect_drift current_map baseline_map))
      = (if total_nodes (summary (detect_drift current_map baseline_map)) > 0
         then 1 - real (drift_count (summary (detect_drift current_map baseline_map)))
                  / real (total_nodes (summary (detect_drift current_map baseline_map)))
         else 0)
   \<and> (distinct (map fst current_map) \<longrightarrow>
        0 \<le> stability_index (summary (detect_drift current_map baseline_map))
        \<and> stability_index (summary (detect_drift current_map baseline_map)) \<le> 1)"
proof (intro conjI impI)
  let ?U = "fst ` set current_map \<union> fst ` set baseline_map"
  let ?k = "length (List.map_filter (moved baseline_map) current_map)"
  assume d: "distinct (map fst current_map)"
  have "?k \<le> length (map fst current_map)"
    using length_map_filter_le[of "moved baseline_map" current_map] by simp
  also have "\<dots> = card (fst ` set current_map)"
    using d distinct_card[of "map fst current_map"] by simp
  also have "\<dots> \<le> card ?U"
    by (rule card_mono) auto
  finally have le: "?k \<le> card ?U" .
  then have "real ?k / real (card ?U) \<le> 1" "0 \<le> real ?k / real (card ?U)"
    using ratio_le_one[of ?k "card ?U"] by simp_all
  then show "0 \<le> stability_index (summary (detect_drift current_map baseline_map))"
    and "stability_index (summary (detect_drift current_map baseline_map)) \<le> 1"
    by (simp_all add: detect_drift_index)
qed (simp_all add: detect_drift_fields detect_drift_index)

theorem detect_drift_summary_witness:
  "distinct (map fst [(''1'', \<lparr>macro_community = 0, micro_community = 0\<rparr>),
                      (''2'', \<lparr>macro_community = 1, micro_community = 1\<rparr>)])
   \<and> 0 \<le> stability_index (summary (detect_drift
              [(''1'', \<lparr>macro_community = 0, micro_community = 0\<rparr>),
               (''2'', \<lparr>macro_community = 1, micro_community = 1\<rparr>)]
              [(''2'', \<lparr>macro_community = 0, micro_community = 0\<rparr>)]))
   \<and> stability_index (summary (detect_drift
              [(''1'', \<lparr>macro_community = 0, micro_community = 0\<rparr>),
               (''2'', \<lparr>macro_community = 1, micro_community = 1\<rparr>)]
              [(''2'', \<lparr>macro_community = 0, micro_community = 0\<rparr>)])) \<le> 1"
  using detect_drift_summary
    [where current_map = "[(''1'', \<lparr>macro_community = 0, micro_community = 0\<rparr>),
                           (''2'', \<lparr>macro_community = 1, micro_community = 1\<rparr>)]"
       and baseline_map = "[(''2'', \<lparr>macro_community = 0, micro_community = 0\<rparr>)]"]
  by (intro conjI; (elim conjE)?; simp)

lemma digit_char_inj: "d < 10 \<Longrightarrow> e < 10 \<Longrightarrow> digit_char d = digit_char e \<Longrightarrow> d = e"
proof -
  assume d: "d < 10" and e: "e < 10" and eq: "digit_char d = digit_char e"
  from eq have "of_char (digit_char d) = (of_char (digit_char e) :: nat)" by simp
  with d e show "d = e" by (simp add: digit_char_def)
qed

lemma digit_char_not_minus: "d < 10 \<Longrightarrow> digit_char d \<noteq> CHR ''-''"
proof
  assume d: "d < 10" and eq: "digit_char d = CHR ''-''"
  from eq have "of_char (digit_char d) = (of_char (CHR ''-'') :: nat)" by simp
  with d show False by (simp add: digit_char_def)
qed

lemma digits_nonempty: "digits n \<noteq> []"
  by (subst digits.simps) simp

lemma digits_no_minus: "CHR ''-'' \<notin> set (digits n)"
proof (induction n rule: digits.induct)
  case (1 n)
  show ?case
  proof (cases "n < 10")
    case True
    then show ?thesis using digit_char_not_minus[of n] by (subst digits.simps) auto
  next
    case False
    with 1 digit_char_not_minus[of "n mod 10"] show ?thesis
      by (subst digits.simps) auto
  qed
qed

lemma digits_inj: "digits n = digits m \<Longrightarrow> n = m"
proof (induction n arbitrary: m rule: digits.induct)
  case (1 n)
  show ?case
  proof (cases "n < 10")
    case n: True
    show ?thesis
    proof (cases "m < 10")
      case True
      with n "1.prems" show ?thesis
        by (auto simp: digits.simps[of n] digits.simps[of m] dest: digit_char_inj)
    next
      case False
      with n "1.prems" digits_nonempty[of "m div 10"] show ?thesis
        by (auto simp: digits.simps[of n] digits.simps[of m])
    qed
  next
    case n: False
    show ?thesis
    proof (cases "m < 10")
      case True
      with n "1.prems" digits_nonempty[of "n div 10"] show ?thesis
        by (auto simp: digits.simps[of n] digits.simps[of m])
    next
      case False
      with n "1.prems" have a: "digits (n div 10) = digits (m div 10)"
        and b: "digit_char (n mod 10) = digit_char (m mod 10)"
        by (auto simp: digits.simps[of n] digits.simps[of m])
      from "1.IH"[OF n a] have "n div 10 = m div 10" .
      moreover from b have "n mod 10 = m mod 10"
        using digit_char_inj[of "n mod 10" "m mod 10"] by simp
      ultimately show ?thesis by (metis div_mult_mod_eq)
    qed
  qed
qed

lemma str_int_inj: "str_int i = str_int j \<Longrightarrow> i = j"
  using digits_no_minus[of "nat i"] digits_no_minus[of "nat j"]
        digits_nonempty[of "nat i"] digits_nonempty[of "nat j"]
  by (auto simp: str_int_def split: if_splits dest!: digits_inj)
     (metis list.set_intros(1))+

lemma get0_update: "get0 (AList.update k x sc) key = (if key = k then x else get0 sc key)"
  by (simp add: get0_def AList.update_conv')

lemma node_score_update:
  "node_score (update_score data n k) v key
     = node_score data v key + (if v = n \<and> key = k then 1 else 0)"
  by (auto simp: node_score_def update_score_def Let_def AList.update_conv' get0_update
           split: option.splits)
     (simp_all add: get0_def)

lemma keys_update_score: "fst ` set (update_score data n k) = insert n (fst ` set data)"
  by (auto simp: update_score_def Let_def AList.dom_update map_of_eq_None_iff)

lemma distinct_update_score:
  "distinct (map fst data) \<Longrightarrow> distinct (map fst (update_score data n k))"
  by (simp add: update_score_def Let_def AList.distinct_update)

lemma step_score:
  assumes "lvl = macro_community \<and> K = ''macro_bridge_score''
         \<or> lvl = micro_community \<and> K = ''micro_bridge_score''"
  shows "node_score (bridge_step cm r d) v K
     = node_score d v K + (if crossing lvl cm v r then 1 else 0)"
  using assms
  by (auto simp: bridge_step_def crossing_def Let_def node_score_update split: option.splits)

lemma step_keys:
  "fst ` set (bridge_step cm r d)
     = fst ` set d \<union> {v. crossing macro_community cm v r \<or> crossing micro_community cm v r}"
  by (auto simp: bridge_step_def crossing_def Let_def keys_update_score split: option.splits)

lemma step_distinct:
  "distinct (map fst d) \<Longrightarrow> distinct (map fst (bridge_step cm r d))"
  by (auto simp: bridge_step_def Let_def distinct_update_score split: option.splits)

lemma fold_score:
  assumes "lvl = macro_community \<and> K = ''macro_bridge_score''
         \<or> lvl = micro_community \<and> K = ''micro_bridge_score''"
  shows "node_score (fold (bridge_step cm) df d) v K = node_score d v K + crossings lvl cm df v"
proof (induction df arbitrary: d)
  case Nil
  then show ?case by (simp add: crossings_def)
next
  case (Cons r df)
  show ?case using Cons.IH[of "bridge_step cm r d"] step_score[OF assms, of cm r d v]
    by (simp add: crossings_def)
qed

lemma fold_keys:
  "fst ` set (fold (bridge_step cm) df d)
     = fst ` set d \<union> {v. 0 < crossings macro_community cm df v \<or> 0 < crossings micro_community cm df v}"
proof (induction df arbitrary: d)
  case Nil
  then show ?case by (simp add: crossings_def)
next
  case (Cons r df)
  show ?case using Cons.IH[of "bridge_step cm r d"]
    by (auto simp: crossings_def step_keys)
qed

lemma fold_distinct:
  "distinct (map fst d) \<Longrightarrow> distinct (map fst (fold (bridge_step cm) df d))"
  by (induction df arbitrary: d) (simp_all add: step_distinct)

lemma mset_sort_reverse: "mset (sort_reverse f xs) = mset xs"
  by (simp add: sort_reverse_def)

lemma mset_map_sort_reverse: "mset (map g (sort_reverse f xs)) = mset (map g xs)"
  by (simp add: sort_reverse_def)

lemma set_sort_reverse: "set (sort_reverse f xs) = set xs"
  by (simp add: sort_reverse_def)

lemma sorted_sort_reverse: "sorted (rev (map f (sort_reverse f xs)))"
  by (simp add: sort_reverse_def rev_map)

lemma identify_bridges_alt:
  "identify_bridges df cm
     = sort_reverse (\<lambda>x. (macro_score x, micro_score x))
         (map mk_bridge (fold (bridge_step cm) df []))"
  by (simp add: identify_bridges_def mk_bridge_def Let_def)

lemma bridge_ids:
  "mset (map bridge_node_id (identify_bridges df cm))
     = mset (map fst (fold (bridge_step cm) df []))"
proof -
  have "bridge_node_id \<circ> mk_bridge = fst"
    by (auto simp: mk_bridge_def fun_eq_iff)
  then show ?thesis
    unfolding identify_bridges_alt mset_map_sort_reverse by simp
qed

lemma bridge_entry:
  assumes "b \<in> set (identify_bridges df cm)"
  shows "macro_score b = crossings macro_community cm df (bridge_node_id b)"
    and "micro_score b = crossings micro_community cm df (bridge_node_id b)"
proof -
  let ?d = "fold (bridge_step cm) df []"
  from assms obtain nid sc where in_d: "(nid, sc) \<in> set ?d" and b: "b = mk_bridge (nid, sc)"
    unfolding identify_bridges_alt set_sort_reverse by auto
  have "distinct (map fst ?d)" by (rule fold_distinct) simp
  with in_d have look: "map_of ?d nid = Some sc" by simp
  have "node_score ?d nid ''macro_bridge_score'' = crossings macro_community cm df nid"
    using fold_score[of macro_community "''macro_bridge_score''" cm df "[]" nid]
    by (simp add: node_score_def)
  with look b show "macro_score b = crossings macro_community cm df (bridge_node_id b)"
    by (simp add: node_score_def mk_bridge_def)
  have "node_score ?d nid ''micro_bridge_score'' = crossings micro_community cm df nid"
    using fold_score[of micro_community "''micro_bridge_score''" cm df "[]" nid]
    by (simp add: node_score_def)
  with look b show "micro_score b = crossings micro_community cm df (bridge_node_id b)"
    by (simp add: node_score_def mk_bridge_def)
qed

lemma bridge_id_set:
  "bridge_node_id ` set (identify_bridges df cm) = fst ` set (fold (bridge_step cm) df [])"
  using arg_cong[where f = set_mset, OF bridge_ids[of df cm]] by simp

lemma bridge_present:
  "v \<in> bridge_node_id ` set (identify_bridges df cm)
     \<longleftrightarrow> 0 < crossings macro_community cm df v \<or> 0 < crossings micro_community cm df v"
  unfolding bridge_id_set fold_keys by simp

lemma bridge_distinct: "distinct (map bridge_node_id (identify_bridges df cm))"
proof -
  have "distinct (map fst (fold (bridge_step cm) df []))" by (rule fold_distinct) simp
  then show ?thesis using mset_eq_imp_distinct_iff[OF bridge_ids[of df cm]] by simp
qed

lemma bridge_skip:
  "map_of cm (str_int (source row)) = None \<or> map_of cm (str_int (target row)) = None
     \<Longrightarrow> bridge_step cm row d = d"
  by (auto simp: bridge_step_def Let_def split: option.splits)

lemma str_int_small:
  "str_int 1 = ''1''" "str_int 2 = ''2''" "str_int 3 = ''3''" "str_int 7 = ''7''"
  by code_simp+

lemma bridge_literal:
  "identify_bridges
      [\<lparr>source = 1, target = 2, weight = 1\<rparr>, \<lparr>source = 2, target = 3, weight = 1\<rparr>]
      [(''1'', \<lparr>macro_community = 0, micro_community = 0\<rparr>),
       (''2'', \<lparr>macro_community = 0, micro_community = 0\<rparr>),
       (''3'', \<lparr>macro_community = 1, micro_community = 1\<rparr>)]
    = [\<lparr>bridge_node_id = ''2'', macro_score = 1, micro_score = 1\<rparr>,
       \<lparr>bridge_node_id = ''3'', macro_score = 1, micro_score = 1\<rparr>]"
  by (simp add: identify_bridges_def bridge_step_def update_score_def str_int_small
        Let_def get0_def sort_reverse_def)

text \<open>
  Claim C2. Every entry of the output carries, as macro and micro score, the number of
  projection rows with both endpoints assigned whose macro (micro) communities differ and
  which touch the node; a node has an entry exactly when one of these numbers is positive,
  and at most one entry; the output is in descending order of
  \<open>(macro_score, micro_score)\<close>; a row with an unassigned endpoint leaves the scores
  unchanged. In the literal scenario nodes 2 and 3 get \<open>macro_score = 1\<close> and node 1
  has no entry.
\<close>

theorem identify_bridges_correct:
  "(\<forall>b \<in> set (identify_bridges df community_map).
       macro_score b = crossings macro_community community_map df (bridge_node_id b)
     \<and> micro_score b = crossings micro_community community_map df (bridge_node_id b))
   \<and> (v \<in> bridge_node_id ` set (identify_bridges df community_map)
        \<longleftrightarrow> 0 < crossings macro_community community_map df v
           \<or> 0 < crossings micro_community community_map df v)
   \<and> distinct (map bridge_node_id (identify_bridges df community_map))
   \<and> sorted (rev (map (\<lambda>x. (macro_score x, micro_score x)) (identify_bridges df community_map)))
   \<and> (map_of community_map (str_int (source row)) = None
        \<or> map_of community_map (str_int (target row)) = None
        \<longrightarrow> bridge_step community_map row bridge_data = bridge_data)
   \<and> identify_bridges
        [\<lparr>source = 1, target = 2, weight = 1\<rparr>, \<lparr>source = 2, target = 3, weight = 1\<rparr>]
        [(''1'', \<lparr>macro_community = 0, micro_community = 0\<rparr>),
         (''2'', \<lparr>macro_community = 0, micro_community = 0\<rparr>),
         (''3'', \<lparr>macro_community = 1, micro_community = 1\<rparr>)]
      = [\<lparr>bridge_node_id = ''2'', macro_score = 1, micro_score = 1\<rparr>,
         \<lparr>bridge_node_id = ''3'', macro_score = 1, micro_score = 1\<rparr>]"
proof (intro conjI ballI impI)
  show "sorted (rev (map (\<lambda>x. (macro_score x, micro_score x)) (identify_bridges df community_map)))"
    unfolding identify_bridges_alt by (rule sorted_sort_reverse)
qed (simp_all add: bridge_entry bridge_present bridge_distinct bridge_skip bridge_literal)

theorem identify_bridges_correct_witness:
  "\<lparr>bridge_node_id = ''3'', macro_score = 1, micro_score = 1\<rparr>
      \<in> set (identify_bridges
          [\<lparr>source = 1, target = 2, weight = 1\<rparr>, \<lparr>source = 2, target = 3, weight = 1\<rparr>]
          [(''1'', \<lparr>macro_community = 0, micro_community = 0\<rparr>),
           (''2'', \<lparr>macro_community = 0, micro_community = 0\<rparr>),
           (''3'', \<lparr>macro_community = 1, micro_community = 1\<rparr>)])
   \<and> crossings macro_community
        [(''1'', \<lparr>macro_community = 0, micro_community = 0\<rparr>),
         (''2'', \<lparr>macro_community = 0, micro_community = 0\<rparr>),
         (''3'', \<lparr>macro_community = 1, micro_community = 1\<rparr>)]
        [\<lparr>source = 1, target = 2, weight = 1\<rparr>, \<lparr>source = 2, target = 3, weight = 1\<rparr>]
        ''3'' = 1
   \<and> ''1'' \<notin> bridge_node_id ` set (identify_bridges
          [\<lparr>source = 1, target = 2, weight = 1\<rparr>, \<lparr>source = 2, target = 3, weight = 1\<rparr>]
          [(''1'', \<lparr>macro_community = 0, micro_community = 0\<rparr>),
           (''2'', \<lparr>macro_community = 0, micro_community = 0\<rparr>),
           (''3'', \<lparr>macro_community = 1, micro_community = 1\<rparr>)])
   \<and> map_of [(''1'', \<lparr>macro_community = 0, micro_community = 0\<rparr>),
              (''2'', \<lparr>macro_community = 0, micro_community = 0\<rparr>),
              (''3'', \<lparr>macro_community = 1, micro_community = 1\<rparr>)]
         (str_int (target \<lparr>source = 3, target = 7, weight = 1\<rparr>)) = None
   \<and> bridge_step
        [(''1'', \<lparr>macro_community = 0, micro_community = 0\<rparr>),
         (''2'', \<lparr>macro_community = 0, micro_community = 0\<rparr>),
         (''3'', \<lparr>macro_community = 1, micro_community = 1\<rparr>)]
        \<lparr>source = 3, target = 7, weight = 1\<rparr> [] = []"
proof -
  let ?cm = "[(''1'', \<lparr>macro_community = 0, micro_community = 0\<rparr>),
              (''2'', \<lparr>macro_community = 0, micro_community = 0\<rparr>),
              (''3'', \<lparr>macro_community = 1, micro_community = 1\<rparr>)]"
  let ?df = "[\<lparr>source = 1, target = 2, weight = 1\<rparr>, \<lparr>source = 2, target = 3, weight = 1\<rparr>]"
  let ?b = "\<lparr>bridge_node_id = ''3'', macro_score = 1, micro_score = 1\<rparr>"
  note t = identify_bridges_correct[where df = ?df and community_map = ?cm
      and row = "\<lparr>source = 3, target = 7, weight = 1\<rparr>" and bridge_data = "[]" and v = "''1''"]
  from t have lit: "identify_bridges ?df ?cm
      = [\<lparr>bridge_node_id = ''2'', macro_score = 1, micro_score = 1\<rparr>, ?b]"
    by blast
  have mem: "?b \<in> set (identify_bridges ?df ?cm)"
    unfolding lit by simp
  from t mem have "macro_score ?b = crossings macro_community ?cm ?df (bridge_node_id ?b)"
    by blast
  then have c: "crossings macro_community ?cm ?df ''3'' = 1" by simp
  have absent: "''1'' \<notin> bridge_node_id ` set (identify_bridges ?df ?cm)"
    unfolding lit by simp
  have none: "map_of ?cm (str_int (target \<lparr>source = 3, target = 7, weight = 1\<rparr>)) = None"
    by (simp add: str_int_small)
  with t have skip: "bridge_step ?cm \<lparr>source = 3, target = 7, weight = 1\<rparr> [] = []"
    by blast
  from mem c absent none skip show ?thesis by blast
qed

lemma sort_cong_mset: "mset xs = mset ys \<Longrightarrow> sort xs = sort (ys :: 'a::linorder list)"
  by (rule properties_for_sort) simp_all

lemma hash_nodes_perm: "mset xs = mset ys \<Longrightarrow> hash_nodes H xs = hash_nodes H ys"
  by (simp add: hash_nodes_def sort_cong_mset[of xs ys])

lemma sort_distinct_set:
  "distinct xs \<Longrightarrow> distinct ys \<Longrightarrow> set xs = set ys \<Longrightarrow> sort xs = sort (ys :: 'a::linorder list)"
  by (rule sort_cong_mset) (simp add: set_eq_iff_mset_eq_distinct)

lemma hash_nodes_set:
  "distinct xs \<Longrightarrow> distinct ys \<Longrightarrow> set xs = set ys \<Longrightarrow> hash_nodes H xs = hash_nodes H ys"
  by (simp add: hash_nodes_def sort_distinct_set[of xs ys])

lemma members_distinct: "distinct (map fst cm) \<Longrightarrow> distinct (members lvl cm c)"
  by (simp add: members_def distinct_map_filter)

lemma members_perm: "mset cm = mset cm' \<Longrightarrow> mset (members lvl cm c) = mset (members lvl cm' c)"
  by (simp add: members_def)

lemma fold_group_fst:
  "fst (fold group_step cm (mg, ug))
     = fold (\<lambda>item g. group_append g (macro_community (snd item)) (fst item)) cm mg"
  by (induction cm arbitrary: mg ug) (auto simp: group_step_def)

lemma fold_group_snd:
  "snd (fold group_step cm (mg, ug))
     = fold (\<lambda>item g. group_append g (micro_community (snd item)) (fst item)) cm ug"
  by (induction cm arbitrary: mg ug) (auto simp: group_step_def)

lemma map_of_group_append:
  "map_of (group_append g k v) c
     = (if c = k then Some ((case map_of g k of None \<Rightarrow> [] | Some vs \<Rightarrow> vs) @ [v]) else map_of g c)"
  by (simp add: group_append_def AList.update_conv')

lemma distinct_group_append:
  "distinct (map fst g) \<Longrightarrow> distinct (map fst (group_append g k v))"
  by (simp add: group_append_def AList.distinct_update)

lemma fold_group_lookup:
  "map_of (fold (\<lambda>item g. group_append g (lvl (snd item)) (fst item)) cm g) c
     = (case map_of g c of
          None \<Rightarrow> if members lvl cm c = [] then None else Some (members lvl cm c)
        | Some old \<Rightarrow> Some (old @ members lvl cm c))"
  by (induction cm arbitrary: g)
     (auto simp: members_def map_of_group_append split: option.splits)

lemma fold_group_distinct:
  "distinct (map fst g) \<Longrightarrow>
   distinct (map fst (fold (\<lambda>item g. group_append g (lvl (snd item)) (fst item)) cm g))"
  by (induction cm arbitrary: g) (simp_all add: distinct_group_append)

lemma map_of_rev_distinct: "distinct (map fst xs) \<Longrightarrow> map_of (rev xs) = map_of xs"
  by (subst map_of_inject_set) (simp_all flip: rev_map)

lemma fold_hash_lookup:
  "map_of (fold (hash_step H) gs fp) s
     = (case map_of (rev (map (\<lambda>g. (str_int (fst g), hash_nodes H (snd g))) gs)) s of
          None \<Rightarrow> map_of fp s
        | Some h \<Rightarrow> Some h)"
  by (induction gs arbitrary: fp)
     (auto simp: hash_step_def AList.update_conv' map_add_def split: option.splits prod.splits)

lemma map_of_str_keys:
  "map_of (map (\<lambda>g. (str_int (fst g), f (snd g))) gs) (str_int c) = map_option f (map_of gs c)"
  by (induction gs) (auto dest: str_int_inj)

lemma map_of_str_keys_none:
  "s \<notin> range str_int \<Longrightarrow> map_of (map (\<lambda>g. (str_int (fst g), f (snd g))) gs) s = None"
  by (induction gs) auto

lemma distinct_str_keys:
  "distinct (map fst gs) \<Longrightarrow> distinct (map fst (map (\<lambda>g. (str_int (fst g), f (snd g))) gs))"
  by (induction gs) (auto dest: str_int_inj)

lemma fold_hash_groups:
  assumes "distinct (map fst gs)"
  shows "map_of (fold (hash_step H) gs []) (str_int c) = map_option (hash_nodes H) (map_of gs c)"
    and "s \<notin> range str_int \<Longrightarrow> map_of (fold (hash_step H) gs []) s = None"
proof -
  let ?l = "map (\<lambda>g. (str_int (fst g), hash_nodes H (snd g))) gs"
  have "map_of (rev ?l) = map_of ?l"
    using distinct_str_keys[OF assms] by (rule map_of_rev_distinct)
  then have eq: "map_of (fold (hash_step H) gs []) s' = map_of ?l s'" for s'
    by (simp add: fold_hash_lookup split: option.splits)
  show "map_of (fold (hash_step H) gs []) (str_int c) = map_option (hash_nodes H) (map_of gs c)"
    by (simp add: eq map_of_str_keys)
  show "s \<notin> range str_int \<Longrightarrow> map_of (fold (hash_step H) gs []) s = None"
    by (simp add: eq map_of_str_keys_none)
qed

lemma fingerprint_lookup:
  "map_of (macro_communities (generate_fingerprints H cm)) (str_int c)
     = (if members macro_community cm c = [] then None
        else Some (hash_nodes H (members macro_community cm c)))"
  "map_of (micro_communities (generate_fingerprints H cm)) (str_int c)
     = (if members micro_community cm c = [] then None
        else Some (hash_nodes H (members micro_community cm c)))"
  "s \<notin> range str_int \<Longrightarrow> map_of (macro_communities (generate_fingerprints H cm)) s = None"
  "s \<notin> range str_int \<Longrightarrow> map_of (micro_communities (generate_fingerprints H cm)) s = None"
proof -
  let ?mg = "fold (\<lambda>item g. group_append g (macro_community (snd item)) (fst item)) cm []"
  let ?ug = "fold (\<lambda>item g. group_append g (micro_community (snd item)) (fst item)) cm []"
  have split: "fold group_step cm ([], []) = (?mg, ?ug)"
    using fold_group_fst[of cm "[]" "[]"] fold_group_snd[of cm "[]" "[]"]
    by (metis prod.collapse)
  have dm: "distinct (map fst ?mg)" and du: "distinct (map fst ?ug)"
    by (rule fold_group_distinct, simp)+
  show "map_of (macro_communities (generate_fingerprints H cm)) (str_int c)
     = (if members macro_community cm c = [] then None
        else Some (hash_nodes H (members macro_community cm c)))"
    by (simp add: generate_fingerprints_def split fold_hash_groups(1)[OF dm] fold_group_lookup)
  show "map_of (micro_communities (generate_fingerprints H cm)) (str_int c)
     = (if members micro_community cm c = [] then None
        else Some (hash_nodes H (members micro_community cm c)))"
    by (simp add: generate_fingerprints_def split fold_hash_groups(1)[OF du] fold_group_lookup)
  show "s \<notin> range str_int \<Longrightarrow> map_of (macro_communities (generate_fingerprints H cm)) s = None"
    by (simp add: generate_fingerprints_def split fold_hash_groups(2)[OF dm])
  show "s \<notin> range str_int \<Longrightarrow> map_of (micro_communities (generate_fingerprints H cm)) s = None"
    by (simp add: generate_fingerprints_def split fold_hash_groups(2)[OF du])
qed

lemma fingerprints_perm:
  assumes "mset cm = mset cm'"
  shows "map_of (macro_communities (generate_fingerprints H cm))
           = map_of (macro_communities (generate_fingerprints H cm'))"
    and "map_of (micro_communities (generate_fingerprints H cm))
           = map_of (micro_communities (generate_fingerprints H cm'))"
proof -
  have m: "mset (members lvl cm c) = mset (members lvl cm' c)" for lvl c
    using assms by (rule members_perm)
  have e: "members lvl cm c = [] \<longleftrightarrow> members lvl cm' c = []" for lvl c
    using m[of lvl c] by (metis mset_zero_iff)
  have h: "hash_nodes H (members lvl cm c) = hash_nodes H (members lvl cm' c)" for lvl c
    using m[of lvl c] by (rule hash_nodes_perm)
  show "map_of (macro_communities (generate_fingerprints H cm))
           = map_of (macro_communities (generate_fingerprints H cm'))"
  proof
    fix s
    show "map_of (macro_communities (generate_fingerprints H cm)) s
           = map_of (macro_communities (generate_fingerprints H cm')) s"
    proof (cases "s \<in> range str_int")
      case True
      then obtain c where "s = str_int c" by blast
      then show ?thesis by (simp add: fingerprint_lookup(1) e h)
    next
      case False
      then show ?thesis by (simp add: fingerprint_lookup(3))
    qed
  qed
  show "map_of (micro_communities (generate_fingerprints H cm))
           = map_of (micro_communities (generate_fingerprints H cm'))"
  proof
    fix s
    show "map_of (micro_communities (generate_fingerprints H cm)) s
           = map_of (micro_communities (generate_fingerprints H cm')) s"
    proof (cases "s \<in> range str_int")
      case True
      then obtain c where "s = str_int c" by blast
      then show ?thesis by (simp add: fingerprint_lookup(2) e h)
    next
      case False
      then show ?thesis by (simp add: fingerprint_lookup(4))
    qed
  qed
qed

text \<open>
  Claim C1. The fingerprint of a community is the hash of the comma-joined,
  lexicographically sorted list of its member ids. Member lists that are permutations of
  each other hash alike; two communities with the same set of member ids have the same
  fingerprint; and assignments that list the same entries in a different order yield the
  same fingerprint maps (the same assignment in particular).
\<close>

theorem fingerprint_member_set:
  "hash_nodes H xs = H (join '','' (sort xs))
   \<and> (mset xs = mset ys \<longrightarrow> hash_nodes H xs = hash_nodes H ys)
   \<and> (members macro_community cm c \<noteq> [] \<longrightarrow>
        map_of (macro_communities (generate_fingerprints H cm)) (str_int c)
          = Some (hash_nodes H (members macro_community cm c)))
   \<and> (members micro_community cm c \<noteq> [] \<longrightarrow>
        map_of (micro_communities (generate_fingerprints H cm)) (str_int c)
          = Some (hash_nodes H (members micro_community cm c)))
   \<and> (distinct (map fst cm) \<and> distinct (map fst cm')
        \<and> set (members macro_community cm c) = set (members macro_community cm' c') \<longrightarrow>
        map_of (macro_communities (generate_fingerprints H cm)) (str_int c)
          = map_of (macro_communities (generate_fingerprints H cm')) (str_int c'))
   \<and> (distinct (map fst cm) \<and> distinct (map fst cm')
        \<and> set (members micro_community cm c) = set (members micro_community cm' c') \<longrightarrow>
        map_of (micro_communities (generate_fingerprints H cm)) (str_int c)
          = map_of (micro_communities (generate_fingerprints H cm')) (str_int c'))
   \<and> (mset cm = mset cm' \<longrightarrow>
        map_of (macro_communities (generate_fingerprints H cm))
          = map_of (macro_communities (generate_fingerprints H cm'))
        \<and> map_of (micro_communities (generate_fingerprints H cm))
          = map_of (micro_communities (generate_fingerprints H cm')))"
proof -
  have same: "(members lvl cm c = [] \<longleftrightarrow> members lvl cm' c' = [])
      \<and> hash_nodes H (members lvl cm c) = hash_nodes H (members lvl cm' c')"
    if "distinct (map fst cm)" "distinct (map fst cm')"
       "set (members lvl cm c) = set (members lvl cm' c')" for lvl
  proof
    from that(3) show "members lvl cm c = [] \<longleftrightarrow> members lvl cm' c' = []"
      by (metis set_empty)
    from that show "hash_nodes H (members lvl cm c) = hash_nodes H (members lvl cm' c')"
      by (intro hash_nodes_set members_distinct)
  qed
  show ?thesis
  proof (intro conjI impI)
    show "hash_nodes H xs = H (join '','' (sort xs))"
      by (simp add: hash_nodes_def)
    show "hash_nodes H xs = hash_nodes H ys" if "mset xs = mset ys"
      using that by (rule hash_nodes_perm)
    show "map_of (macro_communities (generate_fingerprints H cm)) (str_int c)
          = map_of (macro_communities (generate_fingerprints H cm')) (str_int c')"
      if "distinct (map fst cm) \<and> distinct (map fst cm')
        \<and> set (members macro_community cm c) = set (members macro_community cm' c')"
      using same[of macro_community] that by (simp add: fingerprint_lookup(1))
    show "map_of (micro_communities (generate_fingerprints H cm)) (str_int c)
          = map_of (micro_communities (generate_fingerprints H cm')) (str_int c')"
      if "distinct (map fst cm) \<and> distinct (map fst cm')
        \<and> set (members micro_community cm c) = set (members micro_community cm' c')"
      using same[of micro_community] that by (simp add: fingerprint_lookup(2))
    show "map_of (macro_communities (generate_fingerprints H cm))
          = map_of (macro_communities (generate_fingerprints H cm'))"
      if "mset cm = mset cm'"
      using that by (rule fingerprints_perm(1))
    show "map_of (micro_communities (generate_fingerprints H cm))
          = map_of (micro_communities (generate_fingerprints H cm'))"
      if "mset cm = mset cm'"
      using that by (rule fingerprints_perm(2))
  qed (simp_all add: fingerprint_lookup(1,2))
qed

theorem fingerprint_member_set_witness:
  "mset [''2'', ''10''] = mset [''10'', ''2'']
   \<and> hash_nodes (\<lambda>s. s) [''2'', ''10''] = hash_nodes (\<lambda>s. s) [''10'', ''2'']
   \<and> members macro_community
        [(''2'', \<lparr>macro_community = 0, micro_community = 1\<rparr>),
         (''10'', \<lparr>macro_community = 0, micro_community = 1\<rparr>)] 0 \<noteq> []
   \<and> map_of (macro_communities (generate_fingerprints (\<lambda>s. s)
        [(''2'', \<lparr>macro_community = 0, micro_community = 1\<rparr>),
         (''10'', \<lparr>macro_community = 0, micro_community = 1\<rparr>)])) (str_int 0)
       = Some ''10,2''
   \<and> mset [(''2'', \<lparr>macro_community = 0, micro_community = 1\<rparr>),
            (''10'', \<lparr>macro_community = 0, micro_community = 1\<rparr>)]
       = mset [(''10'', \<lparr>macro_community = 0, micro_community = 1\<rparr>),
               (''2'', \<lparr>macro_community = 0, micro_community = 1\<rparr>)]
   \<and> map_of (micro_communities (generate_fingerprints (\<lambda>s. s)
        [(''2'', \<lparr>macro_community = 0, micro_community = 1\<rparr>),
         (''10'', \<lparr>macro_community = 0, micro_community = 1\<rparr>)]))
       = map_of (micro_communities (generate_fingerprints (\<lambda>s. s)
        [(''10'', \<lparr>macro_community = 0, micro_community = 1\<rparr>),
         (''2'', \<lparr>macro_community = 0, micro_community = 1\<rparr>)]))"
proof -
  let ?cm = "[(''2'', \<lparr>macro_community = 0, micro_community = 1\<rparr>),
              (''10'', \<lparr>macro_community = 0, micro_community = 1\<rparr>)]"
  let ?cm' = "[(''10'', \<lparr>macro_community = 0, micro_community = 1\<rparr>),
               (''2'', \<lparr>macro_community = 0, micro_community = 1\<rparr>)]"
  note t = fingerprint_member_set[where H = "\<lambda>s. s" and xs = "[''2'', ''10'']"
      and ys = "[''10'', ''2'']" and cm = ?cm and cm' = ?cm' and c = 0 and c' = 0]
  have p: "mset [''2'', ''10''] = mset [''10'', ''2'']" by simp
  with t have h: "hash_nodes (\<lambda>s. s) [''2'', ''10''] = hash_nodes (\<lambda>s. s) [''10'', ''2'']"
    by blast
  have ms: "members macro_community ?cm 0 = [''2'', ''10'']"
    by (simp add: members_def)
  then have ne: "members macro_community ?cm 0 \<noteq> []" by simp
  from t have "hash_nodes (\<lambda>s. s) [''2'', ''10''] = join '','' (sort [''2'', ''10''])"
    by blast
  also have "\<dots> = ''10,2''" by code_simp
  finally have hv: "hash_nodes (\<lambda>s. s) [''2'', ''10''] = ''10,2''" .
  from t ne have "map_of (macro_communities (generate_fingerprints (\<lambda>s. s) ?cm)) (str_int 0)
      = Some (hash_nodes (\<lambda>s. s) (members macro_community ?cm 0))"
    by blast
  then have f: "map_of (macro_communities (generate_fingerprints (\<lambda>s. s) ?cm)) (str_int 0)
      = Some ''10,2''"
    by (simp add: ms hv)
  have q: "mset ?cm = mset ?cm'" by simp
  with t have e: "map_of (micro_communities (generate_fingerprints (\<lambda>s. s) ?cm))
      = map_of (micro_communities (generate_fingerprints (\<lambda>s. s) ?cm'))"
    by blast
  from p h ne f q e show ?thesis by blast
qed

lemma py_prefix_is_take: "\<exists>m. py_prefix k xs = take m xs"
  by (auto simp: py_prefix_def)

lemma py_prefix_nonneg: "0 \<le> k \<Longrightarrow> py_prefix k xs = take (nat k) xs"
  by (simp add: py_prefix_def)

lemma set_add_vertex: "set (add_vertex vs v) = insert v (set vs)"
  by (auto simp: add_vertex_def)

lemma fold_vertex_set:
  "set (fold (\<lambda>r vs. add_vertex (add_vertex vs (source r)) (target r)) es vs)
     = set vs \<union> source ` set es \<union> target ` set es"
  by (induction es arbitrary: vs) (auto simp: set_add_vertex)

lemma set_vertex_names: "set (vertex_names es) = source ` set es \<union> target ` set es"
  by (simp add: vertex_names_def fold_vertex_set)

lemma descending_take:
  "sorted (rev (map f xs)) \<Longrightarrow> sorted (rev (map f (take m xs)))"
proof -
  assume s: "sorted (rev (map f xs))"
  have "rev (map f (take m xs)) = drop (length xs - m) (rev (map f xs))"
    by (simp add: rev_map rev_take drop_map)
  with s show ?thesis by (simp add: sorted_wrt_drop)
qed

lemma map_enum_snd: "map (\<lambda>p. f (snd p)) (enumerate n xs) = map f xs"
  by (induction xs arbitrary: n) simp_all

lemma map_enum_fst: "map (\<lambda>p. fst p) (enumerate n xs) = [n..<n + length xs]"
  by (induction xs arbitrary: n) (simp_all add: upt_rec)

lemma rank_hubs_props:
  assumes "rank_hubs pagerank top_k es = Inr hubs"
  shows "hub_node_id ` set hubs \<subseteq> str_int ` set (vertex_names es)"
    and "map hub_rank hubs = [1..<Suc (length hubs)]"
    and "sorted (rev (map hub_score hubs))"
    and "length hubs \<le> length (vertex_names es)"
    and "0 \<le> top_k \<Longrightarrow> length hubs = min (nat top_k) (length (vertex_names es))"
proof -
  let ?names = "vertex_names es"
  let ?ns = "map (\<lambda>(idx, name). (str_int name, pagerank es ! idx)) (enumerate 0 ?names)"
  let ?srt = "sort_reverse snd ?ns"
  let ?top = "py_prefix top_k ?srt"
  let ?mk = "\<lambda>(rank, h). \<lparr>hub_node_id = fst h, hub_rank = rank, hub_score = snd h\<rparr>"
  from assms have hubs: "hubs = map ?mk (enumerate 1 ?top)"
    by (auto simp: rank_hubs_def Let_def split: if_splits)
  obtain m where top: "?top = take m ?srt"
    using py_prefix_is_take[of top_k ?srt] by blast
  have ids: "map hub_node_id hubs = map fst ?top"
    unfolding hubs by (simp add: case_prod_beta comp_def map_enum_snd)
  have fst_ns: "map fst ?ns = map str_int ?names"
    by (simp add: case_prod_beta comp_def map_enum_snd)
  have "set (map hub_node_id hubs) \<subseteq> set (map fst ?srt)"
    unfolding ids top using set_take_subset[of m ?srt] by auto
  also have "\<dots> = set (map fst ?ns)"
    by (simp only: set_map set_sort_reverse)
  also have "\<dots> = str_int ` set ?names"
    unfolding fst_ns by simp
  finally show "hub_node_id ` set hubs \<subseteq> str_int ` set (vertex_names es)" by simp
  show "map hub_rank hubs = [1..<Suc (length hubs)]"
    unfolding hubs by (simp add: case_prod_beta comp_def map_enum_fst)
  have sc: "map hub_score hubs = map snd ?top"
    unfolding hubs by (simp add: case_prod_beta comp_def map_enum_snd)
  show "sorted (rev (map hub_score hubs))"
    unfolding sc top by (rule descending_take) (rule sorted_sort_reverse)
  have len: "length hubs = length ?top" unfolding hubs by simp
  have lsrt: "length ?srt = length ?names"
    using arg_cong[where f = size, OF mset_sort_reverse[of snd ?ns]] by simp
  show "length hubs \<le> length (vertex_names es)"
    unfolding len top using lsrt by simp
  show "0 \<le> top_k \<Longrightarrow> length hubs = min (nat top_k) (length (vertex_names es))"
    unfolding len using lsrt by (simp add: py_prefix_nonneg)
qed

lemma hubs_step_pair:
  "hubs_step pr k df (c, ns) acc
     = (case community_hubs pr k df ns of
          Inl e \<Rightarrow> Inl e
        | Inr h \<Rightarrow> Inr (AList.update (str_int c) h acc))"
  by (simp add: hubs_step_def)

lemma hubs_loop_other:
  "for_each (hubs_step pr k df) gs acc = Inr R \<Longrightarrow> s \<notin> str_int ` fst ` set gs
     \<Longrightarrow> map_of R s = map_of acc s"
proof (induction gs arbitrary: acc)
  case Nil
  then show ?case by simp
next
  case (Cons g gs)
  obtain c ns where g: "g = (c, ns)" by (cases g)
  from Cons.prems(1) obtain h where h: "community_hubs pr k df ns = Inr h"
    and rest: "for_each (hubs_step pr k df) gs (AList.update (str_int c) h acc) = Inr R"
    by (auto simp: g hubs_step_pair split: sum.splits)
  from Cons.prems(2) have "s \<noteq> str_int c" "s \<notin> str_int ` fst ` set gs"
    by (auto simp: g)
  with Cons.IH[OF rest] show ?case by (simp add: AList.update_conv')
qed

lemma hubs_loop_lookup:
  "for_each (hubs_step pr k df) gs acc = Inr R \<Longrightarrow> distinct (map fst gs) \<Longrightarrow> (c, ns) \<in> set gs
     \<Longrightarrow> \<exists>h. community_hubs pr k df ns = Inr h \<and> map_of R (str_int c) = Some h"
proof (induction gs arbitrary: acc)
  case Nil
  then show ?case by simp
next
  case (Cons g gs)
  obtain c' ns' where g: "g = (c', ns')" by (cases g)
  from Cons.prems(1) obtain h where h: "community_hubs pr k df ns' = Inr h"
    and rest: "for_each (hubs_step pr k df) gs (AList.update (str_int c') h acc) = Inr R"
    by (auto simp: g hubs_step_pair split: sum.splits)
  show ?case
  proof (cases "(c, ns) = g")
    case True
    with Cons.prems(2) g have "c \<notin> fst ` set gs" by auto
    then have "str_int c \<notin> str_int ` fst ` set gs"
      by (auto dest: str_int_inj)
    from hubs_loop_other[OF rest this] True g h show ?thesis
      by (simp add: AList.update_conv')
  next
    case False
    with Cons.prems have "distinct (map fst gs)" "(c, ns) \<in> set gs" by auto
    from Cons.IH[OF rest this] show ?thesis .
  qed
qed

lemma hubs_loop_total:
  "\<forall>g\<in>set gs. \<exists>h. community_hubs pr k df (snd g) = Inr h
     \<Longrightarrow> \<exists>R. for_each (hubs_step pr k df) gs acc = Inr R"
  by (induction gs arbitrary: acc) (auto simp: hubs_step_pair)

lemma community_hubs_total:
  "\<forall>es. length (pr es) = length (vertex_names es) \<Longrightarrow> \<exists>h. community_hubs pr k df ns = Inr h"
  by (simp add: community_hubs_def rank_hubs_def Let_def)

lemma micro_group_member:
  assumes "members micro_community cm c \<noteq> []"
  shows "(c, members micro_community cm c)
     \<in> set (fold (\<lambda>item g. group_append g (micro_community (snd item)) (fst item)) cm [])"
proof -
  have "map_of (fold (\<lambda>item g. group_append g (micro_community (snd item)) (fst item)) cm []) c
      = Some (members micro_community cm c)"
    using assms by (simp add: fold_group_lookup)
  then show ?thesis by (rule map_of_SomeD)
qed

lemma extract_hubs_lookup:
  assumes "extract_hubs pr k df cm = Inr R" and "members micro_community cm c \<noteq> []"
  shows "\<exists>h. community_hubs pr k df (members micro_community cm c) = Inr h
           \<and> map_of R (str_int c) = Some h"
proof -
  let ?gs = "fold (\<lambda>item g. group_append g (micro_community (snd item)) (fst item)) cm []"
  have d: "distinct (map fst ?gs)" by (rule fold_group_distinct) simp
  from assms(1) have "for_each (hubs_step pr k df) ?gs [] = Inr R"
    by (simp add: extract_hubs_def)
  from hubs_loop_lookup[OF this d micro_group_member[OF assms(2)]] show ?thesis .
qed

lemma extract_hubs_total:
  "\<forall>es. length (pr es) = length (vertex_names es) \<Longrightarrow> \<exists>R. extract_hubs pr k df cm = Inr R"
  unfolding extract_hubs_def Let_def
  by (rule hubs_loop_total) (simp add: community_hubs_total)

lemma comm_edges_inside:
  "str_int ` set (vertex_names (comm_edges df ns)) \<subseteq> set ns"
  by (auto simp: set_vertex_names comm_edges_def)

text \<open>
  Claim C9. In the result of \<open>extract_hubs\<close>, a micro community with fewer than two
  members lists each member (there is exactly one) with rank 1 and score 1, whatever
  \<open>top_k\<close> is; a community with at least two members and no edge between members lists
  its first \<open>top_k\<close> members, in the order of the assignment, each with rank 1 and
  score 1. The call returns a result whenever PageRank returns one score per vertex.
\<close>

theorem extract_hubs_degenerate:
  "(extract_hubs pagerank top_k edges_df cm = Inr R \<and> members micro_community cm c \<noteq> [] \<longrightarrow>
      (let ms = members micro_community cm c in
         (length ms < 2 \<longrightarrow>
            length ms = 1
            \<and> map_of R (str_int c)
                = Some (map (\<lambda>n. \<lparr>hub_node_id = n, hub_rank = 1, hub_score = 1\<rparr>) ms))
       \<and> (2 \<le> length ms \<and> comm_edges edges_df ms = [] \<and> 0 \<le> top_k \<longrightarrow>
            map_of R (str_int c)
              = Some (map (\<lambda>n. \<lparr>hub_node_id = n, hub_rank = 1, hub_score = 1\<rparr>)
                        (take (nat top_k) ms)))))
   \<and> ((\<forall>es. length (pagerank es) = length (vertex_names es)) \<longrightarrow>
        (\<exists>R. extract_hubs pagerank top_k edges_df cm = Inr R))"
proof (intro conjI impI)
  assume a: "extract_hubs pagerank top_k edges_df cm = Inr R \<and> members micro_community cm c \<noteq> []"
  let ?ms = "members micro_community cm c"
  have th: "trivial_hub = (\<lambda>n. \<lparr>hub_node_id = n, hub_rank = 1, hub_score = 1\<rparr>)"
    by (simp add: trivial_hub_def fun_eq_iff)
  from a obtain h where h: "community_hubs pagerank top_k edges_df ?ms = Inr h"
    and look: "map_of R (str_int c) = Some h"
    using extract_hubs_lookup[of pagerank top_k edges_df cm R c] by blast
  have one: "length ?ms = 1" if "length ?ms < 2"
    using that a by (cases ?ms) auto
  have small: "h = map trivial_hub ?ms" if "length ?ms < 2"
    using that h by (simp add: community_hubs_def)
  have iso: "h = map trivial_hub (take (nat top_k) ?ms)"
    if "2 \<le> length ?ms \<and> comm_edges edges_df ?ms = [] \<and> 0 \<le> top_k"
    using that h by (simp add: community_hubs_def py_prefix_nonneg)
  show "let ms = members micro_community cm c in
         (length ms < 2 \<longrightarrow>
            length ms = 1
            \<and> map_of R (str_int c)
                = Some (map (\<lambda>n. \<lparr>hub_node_id = n, hub_rank = 1, hub_score = 1\<rparr>) ms))
       \<and> (2 \<le> length ms \<and> comm_edges edges_df ms = [] \<and> 0 \<le> top_k \<longrightarrow>
            map_of R (str_int c)
              = Some (map (\<lambda>n. \<lparr>hub_node_id = n, hub_rank = 1, hub_score = 1\<rparr>)
                        (take (nat top_k) ms)))"
    unfolding Let_def using one small iso look by (simp add: th)
next
  assume "\<forall>es. length (pagerank es) = length (vertex_names es)"
  then show "\<exists>R. extract_hubs pagerank top_k edges_df cm = Inr R"
    by (rule extract_hubs_total)
qed

text \<open>
  Claim C10. For a micro community with at least two members and at least one edge
  between members, the vertices of the scoring graph are the endpoints of these edges, all
  of them members; every returned entry is such an endpoint, so a member without an edge
  inside the community has no entry, however short the list is; the ranks are
  \<open>1, 2, \<dots>\<close> up to the length of the list and the scores descend. The list has
  \<open>min top_k n\<close> entries for \<open>n\<close> vertices.
\<close>

theorem extract_hubs_ranked:
  "(extract_hubs pagerank top_k edges_df cm = Inr R
      \<and> 2 \<le> length (members micro_community cm c)
      \<and> comm_edges edges_df (members micro_community cm c) \<noteq> [] \<longrightarrow>
      (let ms = members micro_community cm c;
           es = comm_edges edges_df ms
       in \<exists>hubs. map_of R (str_int c) = Some hubs
            \<and> set (vertex_names es) = source ` set es \<union> target ` set es
            \<and> str_int ` set (vertex_names es) \<subseteq> set ms
            \<and> hub_node_id ` set hubs \<subseteq> str_int ` set (vertex_names es)
            \<and> (\<forall>m \<in> set ms.
                  (\<forall>r \<in> set es. str_int (source r) \<noteq> m \<and> str_int (target r) \<noteq> m)
                  \<longrightarrow> m \<notin> hub_node_id ` set hubs)
            \<and> map hub_rank hubs = [1..<Suc (length hubs)]
            \<and> sorted (rev (map hub_score hubs))
            \<and> length hubs \<le> length (vertex_names es)
            \<and> (0 \<le> top_k \<longrightarrow> length hubs = min (nat top_k) (length (vertex_names es)))))
   \<and> ((\<forall>es. length (pagerank es) = length (vertex_names es)) \<longrightarrow>
        (\<exists>R. extract_hubs pagerank top_k edges_df cm = Inr R))"
proof (intro conjI impI)
  let ?ms = "members micro_community cm c"
  let ?es = "comm_edges edges_df ?ms"
  assume a: "extract_hubs pagerank top_k edges_df cm = Inr R
      \<and> 2 \<le> length ?ms \<and> ?es \<noteq> []"
  then have ne: "?ms \<noteq> []" by auto
  from a ne obtain h where h: "community_hubs pagerank top_k edges_df ?ms = Inr h"
    and look: "map_of R (str_int c) = Some h"
    using extract_hubs_lookup[of pagerank top_k edges_df cm R c] by blast
  from a h have r: "rank_hubs pagerank top_k ?es = Inr h"
    by (simp add: community_hubs_def Let_def)
  note p = rank_hubs_props[OF r]
  have absent: "m \<notin> hub_node_id ` set h"
    if "\<forall>r \<in> set ?es. str_int (source r) \<noteq> m \<and> str_int (target r) \<noteq> m" for m
  proof
    assume "m \<in> hub_node_id ` set h"
    with p(1) have "m \<in> str_int ` set (vertex_names ?es)" by blast
    then obtain r where "r \<in> set ?es" "m = str_int (source r) \<or> m = str_int (target r)"
      unfolding set_vertex_names by blast
    with that show False by blast
  qed
  have "map_of R (str_int c) = Some h
            \<and> set (vertex_names ?es) = source ` set ?es \<union> target ` set ?es
            \<and> str_int ` set (vertex_names ?es) \<subseteq> set ?ms
            \<and> hub_node_id ` set h \<subseteq> str_int ` set (vertex_names ?es)
            \<and> (\<forall>m \<in> set ?ms.
                  (\<forall>r \<in> set ?es. str_int (source r) \<noteq> m \<and> str_int (target r) \<noteq> m)
                  \<longrightarrow> m \<notin> hub_node_id ` set h)
            \<and> map hub_rank h = [1..<Suc (length h)]
            \<and> sorted (rev (map hub_score h))
            \<and> length h \<le> length (vertex_names ?es)
            \<and> (0 \<le> top_k \<longrightarrow> length h = min (nat top_k) (length (vertex_names ?es)))"
    using look set_vertex_names[of ?es] comm_edges_inside[of edges_df ?ms] p absent
    by (intro conjI) blast+
  then show "let ms = members micro_community cm c;
           es = comm_edges edges_df ms
       in \<exists>hubs. map_of R (str_int c) = Some hubs
            \<and> set (vertex_names es) = source ` set es \<union> target ` set es
            \<and> str_int ` set (vertex_names es) \<subseteq> set ms
            \<and> hub_node_id ` set hubs \<subseteq> str_int ` set (vertex_names es)
            \<and> (\<forall>m \<in> set ms.
                  (\<forall>r \<in> set es. str_int (source r) \<noteq> m \<and> str_int (target r) \<noteq> m)
                  \<longrightarrow> m \<notin> hub_node_id ` set hubs)
            \<and> map hub_rank hubs = [1..<Suc (length hubs)]
            \<and> sorted (rev (map hub_score hubs))
            \<and> length hubs \<le> length (vertex_names es)
            \<and> (0 \<le> top_k \<longrightarrow> length hubs = min (nat top_k) (length (vertex_names es)))"
    unfolding Let_def by (rule exI)
next
  assume "\<forall>es. length (pagerank es) = length (vertex_names es)"
  then show "\<exists>R. extract_hubs pagerank top_k edges_df cm = Inr R"
    by (rule extract_hubs_total)
qed

lemma str_int_digits:
  "str_int 0 = ''0''" "str_int 1 = ''1''" "str_int 2 = ''2''" "str_int 3 = ''3''"
  "str_int 4 = ''4''"
  by code_simp+

lemma extract_hubs_example:
  "extract_hubs (\<lambda>es. map real_of_int (vertex_names es)) 10
     [\<lparr>source = 1, target = 2, weight = 1\<rparr>, \<lparr>source = 2, target = 4, weight = 1\<rparr>]
     [(''1'', \<lparr>macro_community = 0, micro_community = 0\<rparr>),
      (''2'', \<lparr>macro_community = 0, micro_community = 0\<rparr>),
      (''3'', \<lparr>macro_community = 0, micro_community = 0\<rparr>),
      (''4'', \<lparr>macro_community = 1, micro_community = 1\<rparr>),
      (''5'', \<lparr>macro_community = 1, micro_community = 2\<rparr>),
      (''6'', \<lparr>macro_community = 1, micro_community = 2\<rparr>)]
   = Inr [(''0'', [\<lparr>hub_node_id = ''2'', hub_rank = 1, hub_score = 2\<rparr>,
                   \<lparr>hub_node_id = ''1'', hub_rank = 2, hub_score = 1\<rparr>]),
          (''1'', [\<lparr>hub_node_id = ''4'', hub_rank = 1, hub_score = 1\<rparr>]),
          (''2'', [\<lparr>hub_node_id = ''5'', hub_rank = 1, hub_score = 1\<rparr>,
                   \<lparr>hub_node_id = ''6'', hub_rank = 1, hub_score = 1\<rparr>])]"
  by (simp add: extract_hubs_def group_append_def hubs_step_pair community_hubs_def
        comm_edges_def rank_hubs_def vertex_names_def add_vertex_def py_prefix_def
        sort_reverse_def trivial_hub_def str_int_digits Let_def)

theorem extract_hubs_degenerate_witness:
  "extract_hubs (\<lambda>es. map real_of_int (vertex_names es)) 10
     [\<lparr>source = 1, target = 2, weight = 1\<rparr>, \<lparr>source = 2, target = 4, weight = 1\<rparr>]
     [(''1'', \<lparr>macro_community = 0, micro_community = 0\<rparr>),
      (''2'', \<lparr>macro_community = 0, micro_community = 0\<rparr>),
      (''3'', \<lparr>macro_community = 0, micro_community = 0\<rparr>),
      (''4'', \<lparr>macro_community = 1, micro_community = 1\<rparr>),
      (''5'', \<lparr>macro_community = 1, micro_community = 2\<rparr>),
      (''6'', \<lparr>macro_community = 1, micro_community = 2\<rparr>)]
   = Inr [(''0'', [\<lparr>hub_node_id = ''2'', hub_rank = 1, hub_score = 2\<rparr>,
                   \<lparr>hub_node_id = ''1'', hub_rank = 2, hub_score = 1\<rparr>]),
          (''1'', [\<lparr>hub_node_id = ''4'', hub_rank = 1, hub_score = 1\<rparr>]),
          (''2'', [\<lparr>hub_node_id = ''5'', hub_rank = 1, hub_score = 1\<rparr>,
                   \<lparr>hub_node_id = ''6'', hub_rank = 1, hub_score = 1\<rparr>])]
   \<and> members micro_community [(''1'', \<lparr>macro_community = 0, micro_community = 0\<rparr>),
      (''2'', \<lparr>macro_community = 0, micro_community = 0\<rparr>),
      (''3'', \<lparr>macro_community = 0, micro_community = 0\<rparr>),
      (''4'', \<lparr>macro_community = 1, micro_community = 1\<rparr>),
      (''5'', \<lparr>macro_community = 1, micro_community = 2\<rparr>),
      (''6'', \<lparr>macro_community = 1, micro_community = 2\<rparr>)] 1 = [''4'']
   \<and> map_of [(''0'', [\<lparr>hub_node_id = ''2'', hub_rank = 1, hub_score = 2\<rparr>,
                   \<lparr>hub_node_id = ''1'', hub_rank = 2, hub_score = 1\<rparr>]),
          (''1'', [\<lparr>hub_node_id = ''4'', hub_rank = 1, hub_score = 1\<rparr>]),
          (''2'', [\<lparr>hub_node_id = ''5'', hub_rank = 1, hub_score = 1\<rparr>,
                   \<lparr>hub_node_id = ''6'', hub_rank = 1, hub_score = 1\<rparr>])] (str_int 1)
       = Some [\<lparr>hub_node_id = ''4'', hub_rank = 1, hub_score = 1\<rparr>]
   \<and> members micro_community [(''1'', \<lparr>macro_community = 0, micro_community = 0\<rparr>),
      (''2'', \<lparr>macro_community = 0, micro_community = 0\<rparr>),
      (''3'', \<lparr>macro_community = 0, micro_community = 0\<rparr>),
      (''4'', \<lparr>macro_community = 1, micro_community = 1\<rparr>),
      (''5'', \<lparr>macro_community = 1, micro_community = 2\<rparr>),
      (''6'', \<lparr>macro_community = 1, micro_community = 2\<rparr>)] 2 = [''5'', ''6'']
   \<and> comm_edges [\<lparr>source = 1, target = 2, weight = 1\<rparr>, \<lparr>source = 2, target = 4, weight = 1\<rparr>] [''5'', ''6''] = []
   \<and> map_of [(''0'', [\<lparr>hub_node_id = ''2'', hub_rank = 1, hub_score = 2\<rparr>,
                   \<lparr>hub_node_id = ''1'', hub_rank = 2, hub_score = 1\<rparr>]),
          (''1'', [\<lparr>hub_node_id = ''4'', hub_rank = 1, hub_score = 1\<rparr>]),
          (''2'', [\<lparr>hub_node_id = ''5'', hub_rank = 1, hub_score = 1\<rparr>,
                   \<lparr>hub_node_id = ''6'', hub_rank = 1, hub_score = 1\<rparr>])] (str_int 2)
       = Some [\<lparr>hub_node_id = ''5'', hub_rank = 1, hub_score = 1\<rparr>,
               \<lparr>hub_node_id = ''6'', hub_rank = 1, hub_score = 1\<rparr>]
   \<and> (\<forall>es. length ((\<lambda>es. map real_of_int (vertex_names es)) es) = length (vertex_names es))
   \<and> (\<exists>R. extract_hubs (\<lambda>es. map real_of_int (vertex_names es)) 10
     [\<lparr>source = 1, target = 2, weight = 1\<rparr>, \<lparr>source = 2, target = 4, weight = 1\<rparr>]
     [(''1'', \<lparr>macro_community = 0, micro_community = 0\<rparr>),
      (''2'', \<lparr>macro_community = 0, micro_community = 0\<rparr>),
      (''3'', \<lparr>macro_community = 0, micro_community = 0\<rparr>),
      (''4'', \<lparr>macro_community = 1, micro_community = 1\<rparr>),
      (''5'', \<lparr>macro_community = 1, micro_community = 2\<rparr>),
      (''6'', \<lparr>macro_community = 1, micro_community = 2\<rparr>)] = Inr R)"
proof -
  let ?pr = "(\<lambda>es. map real_of_int (vertex_names es))"
  let ?df = "[\<lparr>source = 1, target = 2, weight = 1\<rparr>, \<lparr>source = 2, target = 4, weight = 1\<rparr>]"
  let ?cm = "[(''1'', \<lparr>macro_community = 0, micro_community = 0\<rparr>),
      (''2'', \<lparr>macro_community = 0, micro_community = 0\<rparr>),
      (''3'', \<lparr>macro_community = 0, micro_community = 0\<rparr>),
      (''4'', \<lparr>macro_community = 1, micro_community = 1\<rparr>),
      (''5'', \<lparr>macro_community = 1, micro_community = 2\<rparr>),
      (''6'', \<lparr>macro_community = 1, micro_community = 2\<rparr>)]"
  let ?R = "[(''0'', [\<lparr>hub_node_id = ''2'', hub_rank = 1, hub_score = 2\<rparr>,
                   \<lparr>hub_node_id = ''1'', hub_rank = 2, hub_score = 1\<rparr>]),
          (''1'', [\<lparr>hub_node_id = ''4'', hub_rank = 1, hub_score = 1\<rparr>]),
          (''2'', [\<lparr>hub_node_id = ''5'', hub_rank = 1, hub_score = 1\<rparr>,
                   \<lparr>hub_node_id = ''6'', hub_rank = 1, hub_score = 1\<rparr>])]"
  note ev = extract_hubs_example
  have m1: "members micro_community ?cm 1 = [''4'']" by (simp add: members_def)
  have m2: "members micro_community ?cm 2 = [''5'', ''6'']" by (simp add: members_def)
  have e2: "comm_edges ?df [''5'', ''6''] = []" by (simp add: comm_edges_def str_int_digits)
  have pr: "\<forall>es. length (?pr es) = length (vertex_names es)" by simp
  note t1 = extract_hubs_degenerate[where pagerank = ?pr and top_k = 10 and edges_df = ?df
      and cm = ?cm and R = ?R and c = 1]
  note t2 = extract_hubs_degenerate[where pagerank = ?pr and top_k = 10 and edges_df = ?df
      and cm = ?cm and R = ?R and c = 2]
  from t1 ev have l1: "map_of ?R (str_int 1)
       = Some [\<lparr>hub_node_id = ''4'', hub_rank = 1, hub_score = 1\<rparr>]"
    unfolding Let_def m1 by simp
  from t2 ev e2 have l2: "map_of ?R (str_int 2)
       = Some [\<lparr>hub_node_id = ''5'', hub_rank = 1, hub_score = 1\<rparr>,
               \<lparr>hub_node_id = ''6'', hub_rank = 1, hub_score = 1\<rparr>]"
    unfolding Let_def m2 by simp
  from t1 pr have ex: "\<exists>R. extract_hubs ?pr 10 ?df ?cm = Inr R" by blast
  from ev m1 l1 m2 e2 l2 pr ex show ?thesis by (intro conjI)
qed

theorem extract_hubs_ranked_witness:
  "extract_hubs (\<lambda>es. map real_of_int (vertex_names es)) 10
     [\<lparr>source = 1, target = 2, weight = 1\<rparr>, \<lparr>source = 2, target = 4, weight = 1\<rparr>]
     [(''1'', \<lparr>macro_community = 0, micro_community = 0\<rparr>),
      (''2'', \<lparr>macro_community = 0, micro_community = 0\<rparr>),
      (''3'', \<lparr>macro_community = 0, micro_community = 0\<rparr>),
      (''4'', \<lparr>macro_community = 1, micro_community = 1\<rparr>),
      (''5'', \<lparr>macro_community = 1, micro_community = 2\<rparr>),
      (''6'', \<lparr>macro_community = 1, micro_community = 2\<rparr>)]
   = Inr [(''0'', [\<lparr>hub_node_id = ''2'', hub_rank = 1, hub_score = 2\<rparr>,
                   \<lparr>hub_node_id = ''1'', hub_rank = 2, hub_score = 1\<rparr>]),
          (''1'', [\<lparr>hub_node_id = ''4'', hub_rank = 1, hub_score = 1\<rparr>]),
          (''2'', [\<lparr>hub_node_id = ''5'', hub_rank = 1, hub_score = 1\<rparr>,
                   \<lparr>hub_node_id = ''6'', hub_rank = 1, hub_score = 1\<rparr>])]
   \<and> members micro_community [(''1'', \<lparr>macro_community = 0, micro_community = 0\<rparr>),
      (''2'', \<lparr>macro_community = 0, micro_community = 0\<rparr>),
      (''3'', \<lparr>macro_community = 0, micro_community = 0\<rparr>),
      (''4'', \<lparr>macro_community = 1, micro_community = 1\<rparr>),
      (''5'', \<lparr>macro_community = 1, micro_community = 2\<rparr>),
      (''6'', \<lparr>macro_community = 1, micro_community = 2\<rparr>)] 0 = [''1'', ''2'', ''3'']
   \<and> comm_edges [\<lparr>source = 1, target = 2, weight = 1\<rparr>, \<lparr>source = 2, target = 4, weight = 1\<rparr>] [''1'', ''2'', ''3''] = [\<lparr>source = 1, target = 2, weight = 1\<rparr>]
   \<and> ''3'' \<in> set [''1'', ''2'', ''3'']
   \<and> str_int (source \<lparr>source = 1, target = 2, weight = 1\<rparr>) \<noteq> ''3''
   \<and> str_int (target \<lparr>source = 1, target = 2, weight = 1\<rparr>) \<noteq> ''3''
   \<and> (\<exists>hubs. map_of [(''0'', [\<lparr>hub_node_id = ''2'', hub_rank = 1, hub_score = 2\<rparr>,
                   \<lparr>hub_node_id = ''1'', hub_rank = 2, hub_score = 1\<rparr>]),
          (''1'', [\<lparr>hub_node_id = ''4'', hub_rank = 1, hub_score = 1\<rparr>]),
          (''2'', [\<lparr>hub_node_id = ''5'', hub_rank = 1, hub_score = 1\<rparr>,
                   \<lparr>hub_node_id = ''6'', hub_rank = 1, hub_score = 1\<rparr>])] (str_int 0) = Some hubs
         \<and> ''3'' \<notin> hub_node_id ` set hubs
         \<and> map hub_rank hubs = [1..<Suc (length hubs)]
         \<and> sorted (rev (map hub_score hubs))
         \<and> length hubs = 2)
   \<and> (\<forall>es. length ((\<lambda>es. map real_of_int (vertex_names es)) es) = length (vertex_names es))
   \<and> (\<exists>R. extract_hubs (\<lambda>es. map real_of_int (vertex_names es)) 10
     [\<lparr>source = 1, target = 2, weight = 1\<rparr>, \<lparr>source = 2, target = 4, weight = 1\<rparr>]
     [(''1'', \<lparr>macro_community = 0, micro_community = 0\<rparr>),
      (''2'', \<lparr>macro_community = 0, micro_community = 0\<rparr>),
      (''3'', \<lparr>macro_community = 0, micro_community = 0\<rparr>),
      (''4'', \<lparr>macro_community = 1, micro_community = 1\<rparr>),
      (''5'', \<lparr>macro_community = 1, micro_community = 2\<rparr>),
      (''6'', \<lparr>macro_community = 1, micro_community = 2\<rparr>)] = Inr R)"
proof -
  let ?pr = "(\<lambda>es. map real_of_int (vertex_names es))"
  let ?df = "[\<lparr>source = 1, target = 2, weight = 1\<rparr>, \<lparr>source = 2, target = 4, weight = 1\<rparr>]"
  let ?cm = "[(''1'', \<lparr>macro_community = 0, micro_community = 0\<rparr>),
      (''2'', \<lparr>macro_community = 0, micro_community = 0\<rparr>),
      (''3'', \<lparr>macro_community = 0, micro_community = 0\<rparr>),
      (''4'', \<lparr>macro_community = 1, micro_community = 1\<rparr>),
      (''5'', \<lparr>macro_community = 1, micro_community = 2\<rparr>),
      (''6'', \<lparr>macro_community = 1, micro_community = 2\<rparr>)]"
  let ?R = "[(''0'', [\<lparr>hub_node_id = ''2'', hub_rank = 1, hub_score = 2\<rparr>,
                   \<lparr>hub_node_id = ''1'', hub_rank = 2, hub_score = 1\<rparr>]),
          (''1'', [\<lparr>hub_node_id = ''4'', hub_rank = 1, hub_score = 1\<rparr>]),
          (''2'', [\<lparr>hub_node_id = ''5'', hub_rank = 1, hub_score = 1\<rparr>,
                   \<lparr>hub_node_id = ''6'', hub_rank = 1, hub_score = 1\<rparr>])]"
  note ev = extract_hubs_example
  have m0: "members micro_community ?cm 0 = [''1'', ''2'', ''3'']" by (simp add: members_def)
  have e0: "comm_edges ?df [''1'', ''2'', ''3''] = [\<lparr>source = 1, target = 2, weight = 1\<rparr>]"
    by (simp add: comm_edges_def str_int_digits)
  have v0: "vertex_names [\<lparr>source = 1, target = 2, weight = 1\<rparr>] = [1, 2]"
    by (simp add: vertex_names_def add_vertex_def)
  have pr: "\<forall>es. length (?pr es) = length (vertex_names es)" by simp
  have s: "str_int (source \<lparr>source = 1, target = 2, weight = 1\<rparr>) \<noteq> ''3''"
          "str_int (target \<lparr>source = 1, target = 2, weight = 1\<rparr>) \<noteq> ''3''"
    by (simp_all add: str_int_digits)
  note t = extract_hubs_ranked[where pagerank = ?pr and top_k = 10 and edges_df = ?df
      and cm = ?cm and R = ?R and c = 0]
  from t ev have "\<exists>hubs. map_of ?R (str_int 0) = Some hubs
         \<and> ''3'' \<notin> hub_node_id ` set hubs
         \<and> map hub_rank hubs = [1..<Suc (length hubs)]
         \<and> sorted (rev (map hub_score hubs))
         \<and> length hubs = 2"
    unfolding Let_def m0 e0 v0 using s by auto
  moreover from t pr have "\<exists>R. extract_hubs ?pr 10 ?df ?cm = Inr R" by blast
  ultimately show ?thesis using ev m0 e0 s pr by (intro conjI) simp_all
qed

lemma for_each_append:
  assumes "\<And>x s. x \<in> set xs \<Longrightarrow> body x s = Inr (s @ f x)"
  shows "for_each body xs s = Inr (s @ concat (map f xs))"
  using assms by (induction xs arbitrary: s) simp_all

lemma for_each_fails:
  assumes "x \<in> set xs" and "\<And>s. body x s = Inl e"
    and "\<And>y s. y \<in> set xs \<Longrightarrow> body y s = Inl e \<or> (\<exists>s'. body y s = Inr s')"
  shows "for_each body xs s = Inl e"
  using assms
proof (induction xs arbitrary: s)
  case Nil
  then show ?case by simp
next
  case (Cons y ys)
  show ?case
  proof (cases "body y s")
    case (Inl e')
    with Cons.prems(3)[of y s] show ?thesis by auto
  next
    case (Inr s')
    with Cons.prems(2)[of s] have "x \<noteq> y" by auto
    with Cons.prems(1) have "x \<in> set ys" by simp
    from Cons.IH[OF this Cons.prems(2)] Cons.prems(3) Inr show ?thesis by simp
  qed
qed

lemma cosine_similarity_value:
  "length a = length b \<Longrightarrow> cosine_similarity a b = Inr (similarity a b)"
  by (simp add: cosine_similarity_def similarity_def dot_def Let_def)

lemma cosine_similarity_zero:
  "linalg_norm a = 0 \<or> linalg_norm b = 0 \<Longrightarrow> cosine_similarity a b = Inr 0"
  by (auto simp: cosine_similarity_def Let_def)

lemma semantic_step_ok:
  assumes "i < length embeddings" "j < length embeddings"
    and "length (embeddings ! i) = length (embeddings ! j)"
  shows "semantic_step self ids embeddings i j s = Inr (s @ pair_edges self ids embeddings i j)"
  using assms
  by (simp add: semantic_step_def getitem_def cosine_similarity_value pair_edges_def)

lemma build_projection_ok:
  assumes "length nodes \<le> length embeddings"
    and "\<forall>i < length nodes. length (embeddings ! i) = d"
  shows "build_projection self nodes edges embeddings
     = Inr (map (\<lambda>(src, tgt). (src, tgt, alpha self, structural)) edges
            @ concat (map (\<lambda>i. concat (map (pair_edges self (map fst nodes) embeddings i)
                                          [i + 1..<length nodes]))
                       [0..<length nodes]))"
proof -
  let ?n = "length nodes"
  have inner: "for_each (semantic_step self (map fst nodes) embeddings i) [i + 1..<?n] s
      = Inr (s @ concat (map (pair_edges self (map fst nodes) embeddings i) [i + 1..<?n]))"
    if "i < ?n" for i s
  proof (rule for_each_append)
    fix j s'
    assume "j \<in> set [i + 1..<?n]"
    with that assms show "semantic_step self (map fst nodes) embeddings i j s'
        = Inr (s' @ pair_edges self (map fst nodes) embeddings i j)"
      by (intro semantic_step_ok) auto
  qed
  show ?thesis
    unfolding build_projection_def Let_def length_map
    by (rule for_each_append) (use inner in simp)
qed

lemma concat_single_index:
  "concat (map (\<lambda>k. if k = j then g k else []) [a..<b]) = (if a \<le> j \<and> j < b then g j else [])"
  by (induction b) auto

lemma concat_all_empty: "(\<And>x. x \<in> set xs \<Longrightarrow> f x = []) \<Longrightarrow> concat (map f xs) = []"
  by (induction xs) auto

lemma filter_concat_map: "filter P (concat (map f xs)) = concat (map (\<lambda>x. filter P (f x)) xs)"
  by (induction xs) auto

lemma filter_pair_edges:
  assumes "distinct ids" "i < length ids" "j < length ids" "i' < length ids" "j' < length ids"
  shows "filter (\<lambda>(s, t, w, ty). s = ids ! i \<and> t = ids ! j \<and> ty = semantic)
           (pair_edges self ids emb i' j')
         = (if i' = i \<and> j' = j then pair_edges self ids emb i j else [])"
  using assms by (auto simp: pair_edges_def nth_eq_iff_index_eq)

lemma filter_semantic_pairs:
  assumes "distinct ids" "i < length ids" "j < length ids" "n = length ids"
  shows "filter (\<lambda>(s, t, w, ty). s = ids ! i \<and> t = ids ! j \<and> ty = semantic)
           (concat (map (\<lambda>i'. concat (map (pair_edges self ids emb i') [i' + 1..<n])) [0..<n]))
         = (if i < j then pair_edges self ids emb i j else [])"
proof -
  let ?P = "\<lambda>(s, t, w, ty). s = ids ! i \<and> t = ids ! j \<and> ty = semantic"
  have inner: "filter ?P (concat (map (pair_edges self ids emb i') [i' + 1..<n]))
      = (if i' = i then (if i < j then pair_edges self ids emb i j else []) else [])"
    if "i' < n" for i'
  proof -
    have "filter ?P (concat (map (pair_edges self ids emb i') [i' + 1..<n]))
        = concat (map (\<lambda>j'. filter ?P (pair_edges self ids emb i' j')) [i' + 1..<n])"
      by (rule filter_concat_map)
    also have "\<dots> = concat (map (\<lambda>j'. if j' = j
                  then (if i' = i then pair_edges self ids emb i j' else []) else [])
                [i' + 1..<n])"
    proof (intro arg_cong[where f = concat] map_cong refl)
      fix j'
      assume "j' \<in> set [i' + 1..<n]"
      with that assms(4) have "i' < length ids" "j' < length ids" by auto
      from filter_pair_edges[OF assms(1,2,3) this, of self emb]
      show "filter ?P (pair_edges self ids emb i' j')
          = (if j' = j then (if i' = i then pair_edges self ids emb i j' else []) else [])"
        by auto
    qed
    also have "\<dots> = (if i' + 1 \<le> j \<and> j < n
                      then (if i' = i then pair_edges self ids emb i j else []) else [])"
      by (rule concat_single_index)
    also have "\<dots> = (if i' = i then (if i < j then pair_edges self ids emb i j else []) else [])"
      using assms by auto
    finally show ?thesis .
  qed
  have "filter ?P (concat (map (\<lambda>i'. concat (map (pair_edges self ids emb i') [i' + 1..<n])) [0..<n]))
      = concat (map (\<lambda>i'. filter ?P (concat (map (pair_edges self ids emb i') [i' + 1..<n]))) [0..<n])"
    by (rule filter_concat_map)
  also have "\<dots> = concat (map (\<lambda>i'. if i' = i
                then (if i' < j then pair_edges self ids emb i' j else []) else []) [0..<n])"
  proof (intro arg_cong[where f = concat] map_cong refl)
    fix i'
    assume "i' \<in> set [0..<n]"
    then have "i' < n" by simp
    from inner[OF this]
    show "filter ?P (concat (map (pair_edges self ids emb i') [i' + 1..<n]))
        = (if i' = i then (if i' < j then pair_edges self ids emb i' j else []) else [])"
      by auto
  qed
  also have "\<dots> = (if 0 \<le> i \<and> i < n then (if i < j then pair_edges self ids emb i j else []) else [])"
    by (rule concat_single_index)
  finally show ?thesis using assms by simp
qed

lemma filter_structural:
  "filter (\<lambda>(s, t, w, ty). s = a \<and> t = b \<and> ty = semantic)
     (map (\<lambda>(src, tgt). (src, tgt, x, structural)) edges) = []"
  by (induction edges) auto

lemma pair_edges_semantic:
  "filter (\<lambda>(s, t, w, ty). ty = semantic) (pair_edges self ids emb i j) = pair_edges self ids emb i j"
  by (simp add: pair_edges_def)

lemma filter_all_concat:
  "(\<And>x. x \<in> set xs \<Longrightarrow> filter P (f x) = f x) \<Longrightarrow> filter P (concat (map f xs)) = concat (map f xs)"
  by (induction xs) auto

lemma semantic_part:
  "filter (\<lambda>(s, t, w, ty). ty = semantic)
     (map (\<lambda>(src, tgt). (src, tgt, x, structural)) edges
      @ concat (map (\<lambda>i. concat (map (pair_edges self ids emb i) [i + 1..<n])) [0..<n]))
   = concat (map (\<lambda>i. concat (map (pair_edges self ids emb i) [i + 1..<n])) [0..<n])"
proof -
  have "filter (\<lambda>(s, t, w, ty). ty = semantic) (map (\<lambda>(src, tgt). (src, tgt, x, structural)) edges) = []"
    by (induction edges) auto
  moreover have "filter (\<lambda>(s, t, w, ty). ty = semantic)
      (concat (map (\<lambda>i. concat (map (pair_edges self ids emb i) [i + 1..<n])) [0..<n]))
    = concat (map (\<lambda>i. concat (map (pair_edges self ids emb i) [i + 1..<n])) [0..<n])"
    by (intro filter_all_concat pair_edges_semantic)
  ultimately show ?thesis by simp
qed

lemma pair_edges_take:
  "i < n \<Longrightarrow> j < n \<Longrightarrow> pair_edges self ids (take n emb) i j = pair_edges self ids emb i j"
  by (simp add: pair_edges_def)

lemma build_projection_take:
  assumes "length nodes \<le> length embeddings"
    and "\<forall>k < length nodes. length (embeddings ! k) = d"
  shows "build_projection self nodes edges (take (length nodes) embeddings)
     = build_projection self nodes edges embeddings"
proof -
  let ?n = "length nodes"
  have a: "?n \<le> length (take ?n embeddings)" using assms(1) by simp
  have b: "\<forall>k < ?n. length (take ?n embeddings ! k) = d" using assms(2) by simp
  have "concat (map (\<lambda>i. concat (map (pair_edges self (map fst nodes) (take ?n embeddings) i)
                                          [i + 1..<?n])) [0..<?n])
      = concat (map (\<lambda>i. concat (map (pair_edges self (map fst nodes) embeddings i)
                                          [i + 1..<?n])) [0..<?n])"
    by (intro arg_cong[where f = concat] map_cong refl) (simp add: pair_edges_take)
  then show ?thesis
    unfolding build_projection_ok[OF a b] build_projection_ok[OF assms] by simp
qed

lemma semantic_step_short:
  assumes "\<forall>k < length embeddings. length (embeddings ! k) = d"
  shows "semantic_step self ids embeddings 0 j s
     = (if j < length embeddings
        then Inr (s @ pair_edges self ids embeddings 0 j) else Inl IndexError)"
  using assms
  by (cases "embeddings = []")
     (auto simp: semantic_step_def getitem_def cosine_similarity_value pair_edges_def)

lemma build_projection_short:
  assumes "length embeddings < length nodes" "2 \<le> length nodes"
    and "\<forall>k < length embeddings. length (embeddings ! k) = d"
  shows "build_projection self nodes edges embeddings = Inl IndexError"
proof -
  let ?n = "length nodes"
  let ?x = "max (length embeddings) 1"
  have inner: "for_each (semantic_step self (map fst nodes) embeddings 0) [1..<?n] s = Inl IndexError" for s
  proof (rule for_each_fails[where x = ?x])
    show "?x \<in> set [1..<?n]" using assms(1,2) by auto
    show "semantic_step self (map fst nodes) embeddings 0 ?x s' = Inl IndexError" for s'
      by (simp add: semantic_step_short[OF assms(3)])
    show "semantic_step self (map fst nodes) embeddings 0 y s' = Inl IndexError
        \<or> (\<exists>s''. semantic_step self (map fst nodes) embeddings 0 y s' = Inr s'')" for y s'
      by (simp add: semantic_step_short[OF assms(3)])
  qed
  have "[0..<?n] = 0 # [Suc 0..<?n]"
    by (rule upt_conv_Cons) (use assms(2) in auto)
  then show ?thesis
    unfolding build_projection_def Let_def length_map
    using inner by simp
qed

lemma filter_pair_out:
  assumes "distinct (map fst nodes)" "i < length nodes" "j < length nodes"
  shows "filter (\<lambda>(s, t, w, ty). s = map fst nodes ! i \<and> t = map fst nodes ! j \<and> ty = semantic)
     (map (\<lambda>(src, tgt). (src, tgt, x, structural)) edges
      @ concat (map (\<lambda>i. concat (map (pair_edges self (map fst nodes) emb i) [i + 1..<length nodes]))
                  [0..<length nodes]))
   = (if i < j then pair_edges self (map fst nodes) emb i j else [])"
proof -
  have "filter (\<lambda>(s, t, w, ty). s = map fst nodes ! i \<and> t = map fst nodes ! j \<and> ty = semantic)
      (concat (map (\<lambda>i. concat (map (pair_edges self (map fst nodes) emb i) [i + 1..<length nodes]))
                  [0..<length nodes]))
    = (if i < j then pair_edges self (map fst nodes) emb i j else [])"
    by (rule filter_semantic_pairs) (use assms in simp_all)
  then show ?thesis
    unfolding filter_append filter_structural by simp
qed

text \<open>
  Claim C5. With one vector of a common dimension per node and distinct node ids, the
  projection is returned and, for every index pair \<open>i < j\<close>, it contains the semantic
  edge from node \<open>i\<close> to node \<open>j\<close> with weight similarity times \<open>beta\<close> exactly
  once when the cosine similarity reaches the threshold and not at all otherwise; it never
  contains a semantic edge from node \<open>j\<close> to node \<open>i\<close>; the semantic edges are those of
  the pairs \<open>i < j\<close> in loop order. The similarity with a vector of norm zero is 0, so such
  a pair yields an edge exactly when the threshold is at most 0.
\<close>

theorem build_projection_semantic:
  "(distinct (map fst nodes) \<and> length embeddings = length nodes
      \<and> (\<forall>k < length nodes. length (embeddings ! k) = d)
      \<and> i < j \<and> j < length nodes \<longrightarrow>
      (\<exists>out. build_projection self nodes edges embeddings = Inr out
         \<and> cosine_similarity (embeddings ! i) (embeddings ! j)
             = Inr (similarity (embeddings ! i) (embeddings ! j))
         \<and> filter (\<lambda>(s, t, w, ty). s = map fst nodes ! i \<and> t = map fst nodes ! j \<and> ty = semantic) out
             = (if threshold self \<le> similarity (embeddings ! i) (embeddings ! j)
                then [(map fst nodes ! i, map fst nodes ! j,
                       similarity (embeddings ! i) (embeddings ! j) * beta self, semantic)]
                else [])
         \<and> filter (\<lambda>(s, t, w, ty). s = map fst nodes ! j \<and> t = map fst nodes ! i \<and> ty = semantic) out = []
         \<and> filter (\<lambda>(s, t, w, ty). ty = semantic) out
             = concat (map (\<lambda>i. concat (map (pair_edges self (map fst nodes) embeddings i)
                                             [i + 1..<length nodes]))
                         [0..<length nodes])
         \<and> (linalg_norm (embeddings ! i) = 0 \<or> linalg_norm (embeddings ! j) = 0 \<longrightarrow>
                (filter (\<lambda>(s, t, w, ty). s = map fst nodes ! i \<and> t = map fst nodes ! j \<and> ty = semantic) out \<noteq> [] \<longleftrightarrow> threshold self \<le> 0))))
   \<and> (linalg_norm a = 0 \<or> linalg_norm b = 0 \<longrightarrow> cosine_similarity a b = Inr 0)"
proof (intro conjI impI)
  assume h: "distinct (map fst nodes) \<and> length embeddings = length nodes
      \<and> (\<forall>k < length nodes. length (embeddings ! k) = d)
      \<and> i < j \<and> j < length nodes"
  let ?ids = "map fst nodes"
  let ?n = "length nodes"
  let ?sem = "concat (map (\<lambda>i. concat (map (pair_edges self ?ids embeddings i) [i + 1..<?n])) [0..<?n])"
  let ?str = "map (\<lambda>(src, tgt). (src, tgt, alpha self, structural)) edges"
  from h have len: "?n \<le> length embeddings" and dims: "\<forall>k < ?n. length (embeddings ! k) = d"
    and d: "distinct ?ids" and ij: "i < j" "j < ?n" "i < ?n"
    by auto
  have out: "build_projection self nodes edges embeddings = Inr (?str @ ?sem)"
    by (rule build_projection_ok[OF len dims])
  have cs: "cosine_similarity (embeddings ! i) (embeddings ! j)
      = Inr (similarity (embeddings ! i) (embeddings ! j))"
    using dims ij by (intro cosine_similarity_value) simp
  have f1: "filter (\<lambda>(s, t, w, ty). s = map fst nodes ! i \<and> t = map fst nodes ! j \<and> ty = semantic) (?str @ ?sem) = pair_edges self ?ids embeddings i j"
    using filter_pair_out[OF d ij(3) ij(2), of "alpha self" edges self embeddings] ij(1)
    by (simp only: if_True)
  have f2: "filter (\<lambda>(s, t, w, ty). s = map fst nodes ! j \<and> t = map fst nodes ! i \<and> ty = semantic) (?str @ ?sem) = []"
  proof -
    from ij(1) have "\<not> j < i" by simp
    with filter_pair_out[OF d ij(2) ij(3), of "alpha self" edges self embeddings]
    show ?thesis by (simp only: if_False)
  qed
  have f3: "filter (\<lambda>(s, t, w, ty). ty = semantic) (?str @ ?sem) = ?sem"
    by (rule semantic_part)
  have p0: "pair_edges self ?ids embeddings i j
      = (if threshold self \<le> similarity (embeddings ! i) (embeddings ! j)
         then [(?ids ! i, ?ids ! j,
                similarity (embeddings ! i) (embeddings ! j) * beta self, semantic)]
         else [])"
    by (simp only: pair_edges_def)
  have z: "filter (\<lambda>(s, t, w, ty). s = map fst nodes ! i \<and> t = map fst nodes ! j \<and> ty = semantic) (?str @ ?sem) \<noteq> [] \<longleftrightarrow> threshold self \<le> 0"
    if "linalg_norm (embeddings ! i) = 0 \<or> linalg_norm (embeddings ! j) = 0"
  proof -
    from that have "similarity (embeddings ! i) (embeddings ! j) = 0"
      by (auto simp: similarity_def)
    then show ?thesis unfolding f1 p0 by simp
  qed
  show "\<exists>out. build_projection self nodes edges embeddings = Inr out
         \<and> cosine_similarity (embeddings ! i) (embeddings ! j)
             = Inr (similarity (embeddings ! i) (embeddings ! j))
         \<and> filter (\<lambda>(s, t, w, ty). s = map fst nodes ! i \<and> t = map fst nodes ! j \<and> ty = semantic) out
             = (if threshold self \<le> similarity (embeddings ! i) (embeddings ! j)
                then [(map fst nodes ! i, map fst nodes ! j,
                       similarity (embeddings ! i) (embeddings ! j) * beta self, semantic)]
                else [])
         \<and> filter (\<lambda>(s, t, w, ty). s = map fst nodes ! j \<and> t = map fst nodes ! i \<and> ty = semantic) out = []
         \<and> filter (\<lambda>(s, t, w, ty). ty = semantic) out
             = concat (map (\<lambda>i. concat (map (pair_edges self (map fst nodes) embeddings i)
                                             [i + 1..<length nodes]))
                         [0..<length nodes])
         \<and> (linalg_norm (embeddings ! i) = 0 \<or> linalg_norm (embeddings ! j) = 0 \<longrightarrow>
                (filter (\<lambda>(s, t, w, ty). s = map fst nodes ! i \<and> t = map fst nodes ! j \<and> ty = semantic) out \<noteq> [] \<longleftrightarrow> threshold self \<le> 0))"
    using out cs f1[unfolded p0] f2 f3 z by blast
next
  assume "linalg_norm a = 0 \<or> linalg_norm b = 0"
  then show "cosine_similarity a b = Inr 0" by (rule cosine_similarity_zero)
qed

theorem build_projection_semantic_witness:
  "distinct (map fst [(''101'', ''BGP_DOWN''), (''102'', ''HOLD_TIMER_EXPIRED''), (''103'', ''MTU_MISMATCH'')])
   \<and> length ([[1, 0], [1, 0], [0, 0]] :: real list list) = length [(''101'', ''BGP_DOWN''), (''102'', ''HOLD_TIMER_EXPIRED''), (''103'', ''MTU_MISMATCH'')]
   \<and> (0::nat) < 1 \<and> (1::nat) < length [(''101'', ''BGP_DOWN''), (''102'', ''HOLD_TIMER_EXPIRED''), (''103'', ''MTU_MISMATCH'')]
   \<and> (\<exists>out. build_projection \<lparr>alpha = 1, beta = 1 / 2, threshold = 85 / 100\<rparr>
          [(''101'', ''BGP_DOWN''), (''102'', ''HOLD_TIMER_EXPIRED''), (''103'', ''MTU_MISMATCH'')] [(''102'', ''101'')] [[1, 0], [1, 0], [0, 0]] = Inr out
        \<and> filter (\<lambda>(s, t, w, ty). s = ''101'' \<and> t = ''102'' \<and> ty = semantic) out
            = [(''101'', ''102'', 1 / 2, semantic)]
        \<and> filter (\<lambda>(s, t, w, ty). s = ''102'' \<and> t = ''101'' \<and> ty = semantic) out = [])
   \<and> linalg_norm [0, 0] = 0
   \<and> cosine_similarity [0, 0] [1, 0] = Inr 0"
proof -
  let ?self = "\<lparr>alpha = 1, beta = 1 / 2, threshold = 85 / 100\<rparr>"
  let ?nodes = "[(''101'', ''BGP_DOWN''), (''102'', ''HOLD_TIMER_EXPIRED''), (''103'', ''MTU_MISMATCH'')]"
  let ?emb = "[[1, 0], [1, 0], [0, 0]] :: real list list"
  note t = build_projection_semantic[where self = ?self and nodes = ?nodes
      and edges = "[(''102'', ''101'')]" and embeddings = ?emb and d = 2 and i = 0 and j = 1
      and a = "[0, 0]" and b = "[1, 0]"]
  have h1: "distinct (map fst ?nodes)" by simp
  have h2: "length ?emb = length ?nodes" by simp
  have h3: "\<forall>k < length ?nodes. length (?emb ! k) = 2"
    by (auto simp: less_Suc_eq numeral_3_eq_3)
  have h4: "(0::nat) < 1" "(1::nat) < length ?nodes" by simp_all
  have n0: "linalg_norm [0, 0] = 0" by (simp add: linalg_norm_def)
  have sim: "similarity (?emb ! 0) (?emb ! 1) = 1"
    by (simp add: similarity_def linalg_norm_def)
  have ids: "map fst ?nodes ! 0 = ''101''" "map fst ?nodes ! 1 = ''102''" by simp_all
  from t h1 h2 h3 h4 obtain out where
    o: "build_projection ?self ?nodes [(''102'', ''101'')] ?emb = Inr out"
    and f1: "filter (\<lambda>(s, t, w, ty). s = map fst ?nodes ! 0 \<and> t = map fst ?nodes ! 1 \<and> ty = semantic) out
        = (if threshold ?self \<le> similarity (?emb ! 0) (?emb ! 1)
           then [(map fst ?nodes ! 0, map fst ?nodes ! 1,
                  similarity (?emb ! 0) (?emb ! 1) * beta ?self, semantic)]
           else [])"
    and f2: "filter (\<lambda>(s, t, w, ty). s = map fst ?nodes ! 1 \<and> t = map fst ?nodes ! 0 \<and> ty = semantic) out = []"
    by blast
  from f1 have g1: "filter (\<lambda>(s, t, w, ty). s = ''101'' \<and> t = ''102'' \<and> ty = semantic) out
            = [(''101'', ''102'', 1 / 2, semantic)]"
    unfolding sim ids by simp
  from f2 have g2: "filter (\<lambda>(s, t, w, ty). s = ''102'' \<and> t = ''101'' \<and> ty = semantic) out = []"
    unfolding ids .
  from t n0 have z: "cosine_similarity [0, 0] [1, 0] = Inr 0" by blast
  from o g1 g2 have "\<exists>out. build_projection ?self ?nodes [(''102'', ''101'')] ?emb = Inr out
        \<and> filter (\<lambda>(s, t, w, ty). s = ''101'' \<and> t = ''102'' \<and> ty = semantic) out
            = [(''101'', ''102'', 1 / 2, semantic)]
        \<and> filter (\<lambda>(s, t, w, ty). s = ''102'' \<and> t = ''101'' \<and> ty = semantic) out = []"
    by blast
  with h1 h2 h4 n0 z show ?thesis by (intro conjI)
qed

text \<open>
  Claim C8 as stated fails: with two nodes and three vectors the call returns a
  projection.
\<close>

theorem build_projection_shape_counterexample:
  "length ([[1, 0], [1, 0], [0, 1]] :: real list list)
     \<noteq> length [(''101'', ''BGP_DOWN''), (''102'', ''HOLD_TIMER_EXPIRED'')]
   \<and> build_projection \<lparr>alpha = 1, beta = 1 / 2, threshold = 85 / 100\<rparr>
        [(''101'', ''BGP_DOWN''), (''102'', ''HOLD_TIMER_EXPIRED'')] []
        [[1, 0], [1, 0], [0, 1]]
       = Inr [(''101'', ''102'', 1 / 2, semantic)]"
  by (simp add: build_projection_def semantic_step_def getitem_def cosine_similarity_def
        dot_def linalg_norm_def Let_def)

text \<open>
  Claim C8, amended. \<open>build_projection\<close> checks no lengths. Given vectors of one
  dimension: with at least as many vectors as nodes it returns the projection of the first
  \<open>len(nodes)\<close> vectors and ignores the others; with fewer vectors than nodes, and at
  least two nodes, it fails with \<open>IndexError\<close>, raised by \<open>embeddings[i]\<close> or
  \<open>embeddings[j]\<close> inside the semantic loop.
\<close>

theorem build_projection_shape:
  "(length nodes \<le> length embeddings
      \<and> (\<forall>k < length nodes. length (embeddings ! k) = d) \<longrightarrow>
      (\<exists>out. build_projection self nodes edges embeddings = Inr out
         \<and> build_projection self nodes edges (take (length nodes) embeddings) = Inr out))
   \<and> (length embeddings < length nodes \<and> 2 \<le> length nodes
      \<and> (\<forall>k < length embeddings. length (embeddings ! k) = d) \<longrightarrow>
      build_projection self nodes edges embeddings = Inl IndexError)"
proof (intro conjI impI)
  assume h: "length nodes \<le> length embeddings
      \<and> (\<forall>k < length nodes. length (embeddings ! k) = d)"
  then have a: "length nodes \<le> length embeddings"
    and b: "\<forall>k < length nodes. length (embeddings ! k) = d" by simp_all
  from build_projection_ok[OF a b, of self edges] build_projection_take[OF a b, of self edges]
  show "\<exists>out. build_projection self nodes edges embeddings = Inr out
         \<and> build_projection self nodes edges (take (length nodes) embeddings) = Inr out"
    by simp
next
  assume h: "length embeddings < length nodes \<and> 2 \<le> length nodes
      \<and> (\<forall>k < length embeddings. length (embeddings ! k) = d)"
  then show "build_projection self nodes edges embeddings = Inl IndexError"
    by (intro build_projection_short[where d = d]) simp_all
qed

theorem build_projection_shape_witness:
  "length [(''101'', ''BGP_DOWN''), (''102'', ''HOLD_TIMER_EXPIRED'')]
     \<le> length ([[1, 0], [1, 0], [0, 1]] :: real list list)
   \<and> (\<exists>out. build_projection \<lparr>alpha = 1, beta = 1 / 2, threshold = 85 / 100\<rparr>
          [(''101'', ''BGP_DOWN''), (''102'', ''HOLD_TIMER_EXPIRED'')] []
          [[1, 0], [1, 0], [0, 1]] = Inr out
        \<and> build_projection \<lparr>alpha = 1, beta = 1 / 2, threshold = 85 / 100\<rparr>
          [(''101'', ''BGP_DOWN''), (''102'', ''HOLD_TIMER_EXPIRED'')] []
          (take (length [(''101'', ''BGP_DOWN''), (''102'', ''HOLD_TIMER_EXPIRED'')])
             [[1, 0], [1, 0], [0, 1]]) = Inr out)
   \<and> length ([[1, 0]] :: real list list)
       < length [(''101'', ''BGP_DOWN''), (''102'', ''HOLD_TIMER_EXPIRED'')]
   \<and> 2 \<le> length [(''101'', ''BGP_DOWN''), (''102'', ''HOLD_TIMER_EXPIRED'')]
   \<and> build_projection \<lparr>alpha = 1, beta = 1 / 2, threshold = 85 / 100\<rparr>
        [(''101'', ''BGP_DOWN''), (''102'', ''HOLD_TIMER_EXPIRED'')] [] [[1, 0]]
       = Inl IndexError"
proof -
  let ?self = "\<lparr>alpha = 1, beta = 1 / 2, threshold = 85 / 100\<rparr>"
  let ?nodes = "[(''101'', ''BGP_DOWN''), (''102'', ''HOLD_TIMER_EXPIRED'')]"
  let ?long = "[[1, 0], [1, 0], [0, 1]] :: real list list"
  let ?short = "[[1, 0]] :: real list list"
  note t1 = build_projection_shape[where self = ?self and nodes = ?nodes and edges = "[]"
      and embeddings = ?long and d = 2]
  note t2 = build_projection_shape[where self = ?self and nodes = ?nodes and edges = "[]"
      and embeddings = ?short and d = 2]
  have a1: "length ?nodes \<le> length ?long" by simp
  have a2: "\<forall>k < length ?nodes. length (?long ! k) = 2"
    by (auto simp: less_Suc_eq numeral_2_eq_2)
  have b1: "length ?short < length ?nodes" "2 \<le> length ?nodes" by simp_all
  have b2: "\<forall>k < length ?short. length (?short ! k) = 2" by simp
  from t1 a1 a2 have r1: "\<exists>out. build_projection ?self ?nodes [] ?long = Inr out
        \<and> build_projection ?self ?nodes [] (take (length ?nodes) ?long) = Inr out"
    by blast
  from t2 b1 b2 have r2: "build_projection ?self ?nodes [] ?short = Inl IndexError"
    by blast
  from a1 r1 b1 r2 show ?thesis by (intro conjI)
qed

lemma for_each_inv_aux:
  assumes step: "\<And>pre x post s. xs = pre @ x # post \<Longrightarrow> P pre s
             \<Longrightarrow> \<exists>s'. body x s = Inr s' \<and> P (pre @ [x]) s'"
  shows "xs = pre @ ys \<Longrightarrow> P pre s \<Longrightarrow> \<exists>s'. for_each body ys s = Inr s' \<and> P xs s'"
proof (induction ys arbitrary: pre s)
  case Nil
  then show ?case by simp
next
  case (Cons y ys)
  from step[OF Cons.prems(1) Cons.prems(2)] obtain s' where
    b: "body y s = Inr s'" and p: "P (pre @ [y]) s'" by blast
  from Cons.prems(1) have "xs = (pre @ [y]) @ ys" by simp
  from Cons.IH[OF this p] b show ?case by simp
qed

lemma for_each_inv:
  assumes "P [] s0"
    and "\<And>pre x post s. xs = pre @ x # post \<Longrightarrow> P pre s
             \<Longrightarrow> \<exists>s'. body x s = Inr s' \<and> P (pre @ [x]) s'"
  shows "\<exists>s'. for_each body xs s0 = Inr s' \<and> P xs s'"
  using for_each_inv_aux[of xs P body "[]" xs s0] assms by blast

lemma set_add_vertex_distinct: "distinct vs \<Longrightarrow> distinct (add_vertex vs v)"
  by (simp add: add_vertex_def)

lemma distinct_vertex_names: "distinct (vertex_names es)"
proof -
  have "distinct vs \<Longrightarrow> distinct (fold (\<lambda>r vs. add_vertex (add_vertex vs (source r)) (target r)) es vs)" for vs
    by (induction es arbitrary: vs) (simp_all add: set_add_vertex_distinct)
  then show ?thesis by (simp add: vertex_names_def)
qed

lemma init_map_props:
  "map_of (fold (\<lambda>node_name m. AList.update (str_int node_name) [] m) names m0) k
     = (if k \<in> str_int ` set names then Some [] else map_of m0 k)"
  "distinct (map fst m0) \<Longrightarrow>
     distinct (map fst (fold (\<lambda>node_name m. AList.update (str_int node_name) [] m) names m0))"
  "fst ` set (fold (\<lambda>node_name m. AList.update (str_int node_name) [] m) names m0)
     = fst ` set m0 \<union> str_int ` set names"
  by (induction names arbitrary: m0)
     (auto simp: AList.update_conv' AList.distinct_update AList.dom_update)

lemma level_step_pair:
  "level_step mem (idx, name) (h, cs)
     = (case getitem mem idx of
          Inl e \<Rightarrow> Inl e
        | Inr c \<Rightarrow>
            (case map_of h (str_int name) of
               None \<Rightarrow> Inl KeyError
             | Some p \<Rightarrow> Inr (AList.update (str_int name) (p @ [c]) h,
                             group_append cs c (str_int name))))"
  by (simp add: level_step_def)

lemma level_loop:
  assumes dn: "distinct names" and len: "length names \<le> length mem"
    and keys: "\<forall>name \<in> set names. map_of h0 (str_int name) \<noteq> None"
    and dh: "distinct (map fst h0)"
  shows "\<exists>h cs. for_each (level_step mem) (enumerate 0 names) (h0, []) = Inr (h, cs)
      \<and> (\<forall>i < length names.
            map_of h (str_int (names ! i))
              = map_option (\<lambda>p. p @ [mem ! i]) (map_of h0 (str_int (names ! i)))
          \<and> (\<exists>ms. map_of cs (mem ! i) = Some ms \<and> str_int (names ! i) \<in> set ms))
      \<and> (\<forall>k. k \<notin> str_int ` set names \<longrightarrow> map_of h k = map_of h0 k)
      \<and> distinct (map fst h) \<and> fst ` set h = fst ` set h0"
proof -
  define P where "P = (\<lambda>pre (st :: hierarchical_map \<times> (int \<times> string list) list).
      (\<forall>(idx, name) \<in> set pre.
          map_of (fst st) (str_int name)
            = map_option (\<lambda>p. p @ [mem ! idx]) (map_of h0 (str_int name))
        \<and> (\<exists>ms. map_of (snd st) (mem ! idx) = Some ms \<and> str_int name \<in> set ms))
      \<and> (\<forall>k. k \<notin> str_int ` snd ` set pre \<longrightarrow> map_of (fst st) k = map_of h0 k)
      \<and> distinct (map fst (fst st)) \<and> fst ` set (fst st) = fst ` set h0)"
  let ?xs = "enumerate 0 names"
  have P0: "P [] (h0, [])" using dh by (simp add: P_def)
  have step: "\<exists>s'. level_step mem x s = Inr s' \<and> P (pre @ [x]) s'"
    if split: "?xs = pre @ x # post" and inv: "P pre s" for pre x post s
  proof -
    obtain idx name where x: "x = (idx, name)" by (cases x)
    obtain h cs where s: "s = (h, cs)" by (cases s)
    have "x \<in> set ?xs" using split by simp
    then have idx: "idx < length names" and name: "name = names ! idx"
      by (auto simp: x in_set_enumerate_eq)
    have "distinct (map snd ?xs)" using dn by simp
    then have "distinct (map snd (pre @ x # post))" using split by simp
    then have fresh: "name \<notin> snd ` set pre" by (auto simp: x)
    then have kfresh: "str_int name \<notin> str_int ` snd ` set pre"
      by (auto dest: str_int_inj)
    from inv have others: "\<forall>k. k \<notin> str_int ` snd ` set pre \<longrightarrow> map_of h k = map_of h0 k"
      and dist: "distinct (map fst h)" and dom: "fst ` set h = fst ` set h0"
      and old: "\<forall>(idx, name) \<in> set pre.
          map_of h (str_int name) = map_option (\<lambda>p. p @ [mem ! idx]) (map_of h0 (str_int name))
        \<and> (\<exists>ms. map_of cs (mem ! idx) = Some ms \<and> str_int name \<in> set ms)"
      by (simp_all add: P_def s)
    from idx name have "name \<in> set names" by simp
    with keys obtain p where p0: "map_of h0 (str_int name) = Some p" by blast
    with others kfresh have p: "map_of h (str_int name) = Some p" by simp
    have g: "getitem mem idx = Inr (mem ! idx)" using idx len by (simp add: getitem_def)
    let ?h' = "AList.update (str_int name) (p @ [mem ! idx]) h"
    let ?cs' = "group_append cs (mem ! idx) (str_int name)"
    have res: "level_step mem x s = Inr (?h', ?cs')"
      by (simp add: x s level_step_pair g p)
    have in_dom: "str_int name \<in> fst ` set h"
      using p by (metis map_of_eq_None_iff option.distinct(1))
    have "P (pre @ [x]) (?h', ?cs')"
      unfolding P_def
    proof (intro conjI ballI allI impI)
      fix y assume y: "y \<in> set (pre @ [x])"
      show "case y of (idx, name) \<Rightarrow>
          map_of (fst (?h', ?cs')) (str_int name)
            = map_option (\<lambda>p. p @ [mem ! idx]) (map_of h0 (str_int name))
        \<and> (\<exists>ms. map_of (snd (?h', ?cs')) (mem ! idx) = Some ms \<and> str_int name \<in> set ms)"
      proof (cases "y = x")
        case True
        then show ?thesis
          by (simp add: x AList.update_conv' map_of_group_append p0)
      next
        case False
        with y have yp: "y \<in> set pre" by simp
        obtain i' n' where y': "y = (i', n')" by (cases y)
        from yp y' have "str_int n' \<in> str_int ` snd ` set pre"
          by (metis image_eqI snd_conv)
        with kfresh have ne: "str_int n' \<noteq> str_int name" by metis
        from old yp y' have o1: "map_of h (str_int n')
            = map_option (\<lambda>p. p @ [mem ! i']) (map_of h0 (str_int n'))"
          and o2: "\<exists>ms. map_of cs (mem ! i') = Some ms \<and> str_int n' \<in> set ms"
          by auto
        from o2 have "\<exists>ms. map_of ?cs' (mem ! i') = Some ms \<and> str_int n' \<in> set ms"
          by (auto simp: map_of_group_append)
        with o1 ne show ?thesis by (simp add: y' AList.update_conv')
      qed
    next
      fix k assume "k \<notin> str_int ` snd ` set (pre @ [x])"
      then have "k \<noteq> str_int name" "k \<notin> str_int ` snd ` set pre" by (auto simp: x)
      with others show "map_of (fst (?h', ?cs')) k = map_of h0 k"
        by (simp add: AList.update_conv')
    next
      show "distinct (map fst (fst (?h', ?cs')))" using dist by (simp add: AList.distinct_update)
      show "fst ` set (fst (?h', ?cs')) = fst ` set h0"
        using dom in_dom by (auto simp: AList.dom_update)
    qed
    with res show ?thesis by blast
  qed
  have "\<exists>s'. for_each (level_step mem) ?xs (h0, []) = Inr s' \<and> P ?xs s'"
  proof (rule for_each_inv[where P = P])
    show "P [] (h0, [])" by (rule P0)
    show "\<exists>s'. level_step mem x s = Inr s' \<and> P (pre @ [x]) s'"
      if "?xs = pre @ x # post" "P pre s" for pre x post s
      using step[OF that] .
  qed
  then obtain st where r0: "for_each (level_step mem) ?xs (h0, []) = Inr st"
    and fin0: "P ?xs st" by blast
  obtain h cs where st: "st = (h, cs)" by (cases st)
  from r0 fin0 st have r: "for_each (level_step mem) ?xs (h0, []) = Inr (h, cs)"
    and fin: "P ?xs (h, cs)" by simp_all
  have at: "map_of h (str_int (names ! i))
              = map_option (\<lambda>p. p @ [mem ! i]) (map_of h0 (str_int (names ! i)))
          \<and> (\<exists>ms. map_of cs (mem ! i) = Some ms \<and> str_int (names ! i) \<in> set ms)"
    if "i < length names" for i
  proof -
    from that have "(i, names ! i) \<in> set ?xs" by (simp add: in_set_enumerate_eq)
    with fin show ?thesis unfolding P_def by fastforce
  qed
  have "set (map snd ?xs) = set names" by (simp only: map_snd_enumerate)
  then have "snd ` set ?xs = set names" by (simp only: set_map)
  with fin have rest: "(\<forall>k. k \<notin> str_int ` set names \<longrightarrow> map_of h k = map_of h0 k)
      \<and> distinct (map fst h) \<and> fst ` set h = fst ` set h0"
    unfolding P_def by simp
  from r at rest show ?thesis by blast
qed

lemma resolution_step_pair:
  "resolution_step fp df r (h, lvls)
     = (case for_each (level_step (fp df r)) (enumerate 0 (vertex_names df)) (h, []) of
          Inl e \<Rightarrow> Inl e
        | Inr (h', cs) \<Rightarrow> Inr (h', lvls @ [\<lparr>resolution = r, communities = cs\<rparr>]))"
  by (simp add: resolution_step_def Let_def)

lemma cluster_loop:
  assumes lens: "\<forall>r \<in> set rs. length (vertex_names df) \<le> length (fp df r)"
  shows "\<exists>h lvls. for_each (resolution_step fp df) rs (init_map (vertex_names df), []) = Inr (h, lvls)
      \<and> map resolution lvls = rs
      \<and> distinct (map fst h) \<and> fst ` set h = str_int ` set (vertex_names df)
      \<and> (\<forall>i < length (vertex_names df). \<exists>path.
            map_of h (str_int (vertex_names df ! i)) = Some path \<and> length path = length rs
            \<and> (\<forall>l < length rs. path ! l = fp df (rs ! l) ! i
                  \<and> (\<exists>ms. map_of (communities (lvls ! l)) (path ! l) = Some ms
                        \<and> str_int (vertex_names df ! i) \<in> set ms)))"
proof -
  let ?names = "vertex_names df"
  define Q where "Q = (\<lambda>pre (st :: hierarchical_map \<times> level_data list).
      map resolution (snd st) = pre
      \<and> distinct (map fst (fst st)) \<and> fst ` set (fst st) = str_int ` set ?names
      \<and> (\<forall>i < length ?names. \<exists>path.
            map_of (fst st) (str_int (?names ! i)) = Some path \<and> length path = length pre
            \<and> (\<forall>l < length pre. path ! l = fp df (pre ! l) ! i
                  \<and> (\<exists>ms. map_of (communities (snd st ! l)) (path ! l) = Some ms
                        \<and> str_int (?names ! i) \<in> set ms))))"
  have Q0: "Q [] (init_map ?names, [])"
  proof -
    have a: "distinct (map fst (init_map ?names))"
      unfolding init_map_def by (rule init_map_props(2)) simp
    have b: "fst ` set (init_map ?names) = str_int ` set ?names"
      unfolding init_map_def by (simp add: init_map_props(3))
    have c: "map_of (init_map ?names) (str_int (?names ! i)) = Some []"
      if "i < length ?names" for i
      unfolding init_map_def using that by (simp add: init_map_props(1))
    from a b c show ?thesis unfolding Q_def by simp
  qed
  have step: "\<exists>s'. resolution_step fp df r s = Inr s' \<and> Q (pre @ [r]) s'"
    if split: "rs = pre @ r # post" and inv: "Q pre s" for pre r post s
  proof -
    obtain h lvls where s: "s = (h, lvls)" by (cases s)
    from inv have res: "map resolution lvls = pre" and dh: "distinct (map fst h)"
      and dom: "fst ` set h = str_int ` set ?names"
      and paths: "\<forall>i < length ?names. \<exists>path.
            map_of h (str_int (?names ! i)) = Some path \<and> length path = length pre
            \<and> (\<forall>l < length pre. path ! l = fp df (pre ! l) ! i
                  \<and> (\<exists>ms. map_of (communities (lvls ! l)) (path ! l) = Some ms
                        \<and> str_int (?names ! i) \<in> set ms))"
      unfolding Q_def s fst_conv snd_conv by blast+
    from res have ll: "length lvls = length pre" by (metis length_map)
    from split lens have len: "length ?names \<le> length (fp df r)" by simp
    have keys: "\<forall>name \<in> set ?names. map_of h (str_int name) \<noteq> None"
      using dom by (simp add: map_of_eq_None_iff)
    from level_loop[OF distinct_vertex_names len keys dh]
    obtain h' cs where
      run: "for_each (level_step (fp df r)) (enumerate 0 ?names) (h, []) = Inr (h', cs)"
      and at: "\<forall>i < length ?names.
            map_of h' (str_int (?names ! i))
              = map_option (\<lambda>p. p @ [fp df r ! i]) (map_of h (str_int (?names ! i)))
          \<and> (\<exists>ms. map_of cs (fp df r ! i) = Some ms \<and> str_int (?names ! i) \<in> set ms)"
      and dh': "distinct (map fst h')" and dom': "fst ` set h' = fst ` set h"
      by blast
    let ?lv = "\<lparr>resolution = r, communities = cs\<rparr>"
    have r: "resolution_step fp df r s = Inr (h', lvls @ [?lv])"
      by (simp add: s resolution_step_pair run)
    have "Q (pre @ [r]) (h', lvls @ [?lv])"
      unfolding Q_def
    proof (intro conjI allI impI)
      show "map resolution (snd (h', lvls @ [?lv])) = pre @ [r]" using res by simp
      show "distinct (map fst (fst (h', lvls @ [?lv])))" using dh' by simp
      show "fst ` set (fst (h', lvls @ [?lv])) = str_int ` set ?names" using dom dom' by simp
    next
      fix i assume i: "i < length ?names"
      from paths i obtain p where p: "map_of h (str_int (?names ! i)) = Some p"
        and lp: "length p = length pre"
        and old: "\<forall>l < length pre. p ! l = fp df (pre ! l) ! i
                  \<and> (\<exists>ms. map_of (communities (lvls ! l)) (p ! l) = Some ms
                        \<and> str_int (?names ! i) \<in> set ms)"
        by blast
      from at i p have new: "map_of h' (str_int (?names ! i)) = Some (p @ [fp df r ! i])"
        and grp: "\<exists>ms. map_of cs (fp df r ! i) = Some ms \<and> str_int (?names ! i) \<in> set ms"
        by simp_all
      have lp': "length (p @ [fp df r ! i]) = length (pre @ [r])" using lp by simp
      have al: "\<forall>l < length (pre @ [r]). (p @ [fp df r ! i]) ! l = fp df ((pre @ [r]) ! l) ! i
                  \<and> (\<exists>ms. map_of (communities ((lvls @ [?lv]) ! l)) ((p @ [fp df r ! i]) ! l) = Some ms
                        \<and> str_int (?names ! i) \<in> set ms)"
      proof (intro allI impI)
        fix l assume "l < length (pre @ [r])"
        then consider "l < length pre" | "l = length pre" by fastforce
        then show "(p @ [fp df r ! i]) ! l = fp df ((pre @ [r]) ! l) ! i
                  \<and> (\<exists>ms. map_of (communities ((lvls @ [?lv]) ! l)) ((p @ [fp df r ! i]) ! l) = Some ms
                        \<and> str_int (?names ! i) \<in> set ms)"
        proof cases
          case 1
          with old have "p ! l = fp df (pre ! l) ! i
              \<and> (\<exists>ms. map_of (communities (lvls ! l)) (p ! l) = Some ms
                    \<and> str_int (?names ! i) \<in> set ms)"
            by blast
          with 1 lp ll show ?thesis by (auto simp: nth_append)
        next
          case 2
          with grp lp ll show ?thesis by (auto simp: nth_append)
        qed
      qed
      from new lp' al
      show "\<exists>path. map_of (fst (h', lvls @ [?lv])) (str_int (?names ! i)) = Some path
            \<and> length path = length (pre @ [r])
            \<and> (\<forall>l < length (pre @ [r]). path ! l = fp df ((pre @ [r]) ! l) ! i
                  \<and> (\<exists>ms. map_of (communities (snd (h', lvls @ [?lv]) ! l)) (path ! l) = Some ms
                        \<and> str_int (?names ! i) \<in> set ms))"
        unfolding fst_conv snd_conv by blast
    qed
    with r show ?thesis by blast
  qed
  have "\<exists>s'. for_each (resolution_step fp df) rs (init_map ?names, []) = Inr s' \<and> Q rs s'"
  proof (rule for_each_inv[where P = Q])
    show "Q [] (init_map ?names, [])" by (rule Q0)
    show "\<exists>s'. resolution_step fp df r s = Inr s' \<and> Q (pre @ [r]) s'"
      if "rs = pre @ r # post" "Q pre s" for pre r post s
      using step[OF that] .
  qed
  then obtain st where r0: "for_each (resolution_step fp df) rs (init_map ?names, []) = Inr st"
    and fin0: "Q rs st" by blast
  obtain h lvls where st: "st = (h, lvls)" by (cases st)
  from fin0 have "map resolution lvls = rs
      \<and> distinct (map fst h) \<and> fst ` set h = str_int ` set ?names
      \<and> (\<forall>i < length ?names. \<exists>path.
            map_of h (str_int (?names ! i)) = Some path \<and> length path = length rs
            \<and> (\<forall>l < length rs. path ! l = fp df (rs ! l) ! i
                  \<and> (\<exists>ms. map_of (communities (lvls ! l)) (path ! l) = Some ms
                        \<and> str_int (?names ! i) \<in> set ms)))"
    unfolding Q_def st fst_conv snd_conv .
  with r0 st show ?thesis by blast
qed

lemma compat_step_pair:
  "compat_step (nid, c # cs) cm
     = Inr (AList.update nid \<lparr>macro_community = c, micro_community = last (c # cs)\<rparr> cm)"
  "compat_step (nid, []) cm = Inl IndexError"
  by (simp_all add: compat_step_def)

lemma compat_loop:
  "\<forall>item \<in> set xs. snd item \<noteq> [] \<Longrightarrow>
   \<exists>cm. for_each compat_step xs acc = Inr cm
     \<and> (\<forall>k. map_of cm k
            = (case map_of (rev xs) k of
                 None \<Rightarrow> map_of acc k
               | Some p \<Rightarrow> Some \<lparr>macro_community = p ! 0, micro_community = last p\<rparr>))"
proof (induction xs arbitrary: acc)
  case Nil
  then show ?case by simp
next
  case (Cons x xs)
  obtain nid p where x: "x = (nid, p)" by (cases x)
  with Cons.prems obtain c cs where p: "p = c # cs" by (cases p) auto
  let ?acc = "AList.update nid \<lparr>macro_community = c, micro_community = last (c # cs)\<rparr> acc"
  from Cons.prems have "\<forall>item \<in> set xs. snd item \<noteq> []" by simp
  from Cons.IH[OF this, of ?acc] obtain cm where
    run: "for_each compat_step xs ?acc = Inr cm"
    and look: "\<forall>k. map_of cm k
            = (case map_of (rev xs) k of
                 None \<Rightarrow> map_of ?acc k
               | Some p \<Rightarrow> Some \<lparr>macro_community = p ! 0, micro_community = last p\<rparr>)"
    by blast
  have "for_each compat_step (x # xs) acc = Inr cm"
    using run by (simp add: x p compat_step_pair)
  moreover have "map_of cm k
            = (case map_of (rev (x # xs)) k of
                 None \<Rightarrow> map_of acc k
               | Some p \<Rightarrow> Some \<lparr>macro_community = p ! 0, micro_community = last p\<rparr>)" for k
    using look by (auto simp: x p AList.update_conv' map_add_def split: option.splits)
  ultimately show ?case by blast
qed

lemma compat_view_paths:
  assumes "distinct (map fst h)" and "\<forall>item \<in> set h. snd item \<noteq> []"
  shows "\<exists>cm. compat_view h = Inr cm
     \<and> (\<forall>k p. map_of h k = Some p \<longrightarrow>
            map_of cm k = Some \<lparr>macro_community = p ! 0, micro_community = last p\<rparr>)"
proof -
  from compat_loop[OF assms(2), of "[]"] obtain cm where
    run: "for_each compat_step h [] = Inr cm"
    and look: "\<forall>k. map_of cm k
            = (case map_of (rev h) k of
                 None \<Rightarrow> map_of [] k
               | Some p \<Rightarrow> Some \<lparr>macro_community = p ! 0, micro_community = last p\<rparr>)"
    by blast
  have "map_of (rev h) = map_of h" using assms(1) by (rule map_of_rev_distinct)
  with look have "\<forall>k p. map_of h k = Some p \<longrightarrow>
            map_of cm k = Some \<lparr>macro_community = p ! 0, micro_community = last p\<rparr>"
    by simp
  with run show ?thesis unfolding compat_view_def by blast
qed

lemma cluster_empty:
  "cluster (engine_init rs) fp [] = Inr ([], map (\<lambda>r. \<lparr>resolution = r, communities = []\<rparr>) (sort rs))"
proof -
  have "for_each (resolution_step fp []) xs ([], lvls)
      = Inr ([], lvls @ map (\<lambda>r. \<lparr>resolution = r, communities = []\<rparr>) xs)" for xs lvls
    by (induction xs arbitrary: lvls) (simp_all add: resolution_step_pair vertex_names_def)
  then show ?thesis
    by (simp add: cluster_def engine_init_def init_map_def vertex_names_def)
qed

text \<open>
  Claim C6. The engine holds the resolutions in ascending order, whatever the order given.
  When the detection algorithm returns one community id per vertex, \<open>cluster\<close> returns
  a hierarchy map and a tree with one level per resolution, in ascending order of
  resolution; every node of the graph has a path whose length is the number of
  resolutions, whose entry at each level is the node's community id there, and the node is
  listed under that id in the tree's level. With at least one resolution the compatibility
  map exists and gives every node \<open>path[0]\<close> as macro and \<open>path[-1]\<close> as micro
  community.
\<close>

theorem cluster_hierarchy:
  "resolutions (engine_init rs) = sort rs
   \<and> sorted (resolutions (engine_init rs))
   \<and> mset (resolutions (engine_init rs)) = mset rs
   \<and> ((\<forall>r \<in> set rs. length (find_partition df r) = length (vertex_names df)) \<longrightarrow>
        (\<exists>hmap lvls. cluster (engine_init rs) find_partition df = Inr (hmap, lvls)
           \<and> length lvls = length rs
           \<and> map resolution lvls = sort rs
           \<and> fst ` set hmap = str_int ` set (vertex_names df)
           \<and> (\<forall>i < length (vertex_names df). \<exists>path.
                 map_of hmap (str_int (vertex_names df ! i)) = Some path
                 \<and> length path = length rs
                 \<and> (\<forall>l < length rs.
                       path ! l = find_partition df (sort rs ! l) ! i
                       \<and> (\<exists>ms. map_of (communities (lvls ! l)) (path ! l) = Some ms
                             \<and> str_int (vertex_names df ! i) \<in> set ms)))
           \<and> (rs \<noteq> [] \<longrightarrow>
                (\<exists>cm. compat_view hmap = Inr cm
                   \<and> (\<forall>k path. map_of hmap k = Some path \<longrightarrow>
                          map_of cm k
                            = Some \<lparr>macro_community = path ! 0,
                                    micro_community = last path\<rparr>)))))"
proof (intro conjI impI)
  show "resolutions (engine_init rs) = sort rs" by (simp add: engine_init_def)
  show "sorted (resolutions (engine_init rs))" by (simp add: engine_init_def)
  show "mset (resolutions (engine_init rs)) = mset rs" by (simp add: engine_init_def)
next
  let ?names = "vertex_names df"
  let ?srt = "sort rs"
  assume h: "\<forall>r \<in> set rs. length (find_partition df r) = length ?names"
  then have lens: "\<forall>r \<in> set ?srt. length ?names \<le> length (find_partition df r)" by simp
  have ls: "length ?srt = length rs" by simp
  from cluster_loop[where rs = ?srt and fp = find_partition and df = df, OF lens]
  obtain hm lvls where
    run: "for_each (resolution_step find_partition df) ?srt (init_map ?names, []) = Inr (hm, lvls)"
    and res: "map resolution lvls = ?srt"
    and dh: "distinct (map fst hm)" and dom: "fst ` set hm = str_int ` set ?names"
    and paths: "\<forall>i < length ?names. \<exists>path.
            map_of hm (str_int (?names ! i)) = Some path \<and> length path = length ?srt
            \<and> (\<forall>l < length ?srt. path ! l = find_partition df (?srt ! l) ! i
                  \<and> (\<exists>ms. map_of (communities (lvls ! l)) (path ! l) = Some ms
                        \<and> str_int (?names ! i) \<in> set ms))"
    by blast
  have c: "cluster (engine_init rs) find_partition df = Inr (hm, lvls)"
    using run by (simp add: cluster_def engine_init_def)
  from res have ll: "length lvls = length rs" by (metis length_map ls)
  have compat: "\<exists>cm. compat_view hm = Inr cm
                   \<and> (\<forall>k path. map_of hm k = Some path \<longrightarrow>
                          map_of cm k
                            = Some \<lparr>macro_community = path ! 0,
                                    micro_community = last path\<rparr>)"
    if ne: "rs \<noteq> []"
  proof (rule compat_view_paths[OF dh])
    show "\<forall>item \<in> set hm. snd item \<noteq> []"
    proof
      fix item assume item: "item \<in> set hm"
      obtain k p where kp: "item = (k, p)" by (cases item)
      from item kp have "k \<in> fst ` set hm" by force
      with dom obtain v where v: "v \<in> set ?names" and k: "k = str_int v" by blast
      from v obtain i where i: "i < length ?names" and vi: "v = ?names ! i"
        by (metis in_set_conv_nth)
      from paths i obtain path where pa: "map_of hm (str_int (?names ! i)) = Some path"
        and lp: "length path = length ?srt" by blast
      from dh item kp have "map_of hm k = Some p" by simp
      with pa k vi have "p = path" by simp
      with lp ls ne show "snd item \<noteq> []" by (auto simp: kp)
    qed
  qed
  from c ll res dom paths[unfolded ls] compat
  show "\<exists>hmap lvls. cluster (engine_init rs) find_partition df = Inr (hmap, lvls)
           \<and> length lvls = length rs
           \<and> map resolution lvls = sort rs
           \<and> fst ` set hmap = str_int ` set (vertex_names df)
           \<and> (\<forall>i < length (vertex_names df). \<exists>path.
                 map_of hmap (str_int (vertex_names df ! i)) = Some path
                 \<and> length path = length rs
                 \<and> (\<forall>l < length rs.
                       path ! l = find_partition df (sort rs ! l) ! i
                       \<and> (\<exists>ms. map_of (communities (lvls ! l)) (path ! l) = Some ms
                             \<and> str_int (vertex_names df ! i) \<in> set ms)))
           \<and> (rs \<noteq> [] \<longrightarrow>
                (\<exists>cm. compat_view hmap = Inr cm
                   \<and> (\<forall>k path. map_of hmap k = Some path \<longrightarrow>
                          map_of cm k
                            = Some \<lparr>macro_community = path ! 0,
                                    micro_community = last path\<rparr>)))"
    by blast
qed

theorem cluster_hierarchy_witness:
  "resolutions (engine_init [1, 1 / 100, 1 / 10]) = [1 / 100, 1 / 10, 1]
   \<and> [1, 1 / 100, 1 / 10] \<noteq> ([] :: real list)
   \<and> (\<exists>hmap lvls. cluster (engine_init [1, 1 / 100, 1 / 10]) (\<lambda>df r. if r < 1 / 2 then map (\<lambda>v. 0) (vertex_names df) else map (\<lambda>v. v mod 2) (vertex_names df)) [\<lparr>source = 1, target = 2, weight = 1\<rparr>, \<lparr>source = 2, target = 3, weight = 1\<rparr>] = Inr (hmap, lvls)
        \<and> map resolution lvls = [1 / 100, 1 / 10, 1]
        \<and> (\<exists>path. map_of hmap (str_int 1) = Some path \<and> length path = 3)
        \<and> (\<exists>cm. compat_view hmap = Inr cm))"
proof -
  let ?fp = "(\<lambda>df r. if r < 1 / 2 then map (\<lambda>v. 0) (vertex_names df) else map (\<lambda>v. v mod 2) (vertex_names df))"
  let ?df = "[\<lparr>source = 1, target = 2, weight = 1\<rparr>, \<lparr>source = 2, target = 3, weight = 1\<rparr>]"
  let ?rs = "[1, 1 / 100, 1 / 10] :: real list"
  note t = cluster_hierarchy[where rs = ?rs and find_partition = ?fp and df = ?df]
  have srt: "sort ?rs = [1 / 100, 1 / 10, 1]" by simp
  have vn: "vertex_names ?df = [1, 2, 3]" by (simp add: vertex_names_def add_vertex_def)
  have h: "\<forall>r \<in> set ?rs. length (?fp ?df r) = length (vertex_names ?df)" by simp
  have ne: "?rs \<noteq> []" by simp
  from t have r: "resolutions (engine_init ?rs) = [1 / 100, 1 / 10, 1]"
    unfolding srt by blast
  from t h obtain hmap lvls where
    c: "cluster (engine_init ?rs) ?fp ?df = Inr (hmap, lvls)"
    and res: "map resolution lvls = sort ?rs"
    and paths: "\<forall>i < length (vertex_names ?df). \<exists>path.
                 map_of hmap (str_int (vertex_names ?df ! i)) = Some path
                 \<and> length path = length ?rs
                 \<and> (\<forall>l < length ?rs.
                       path ! l = ?fp ?df (sort ?rs ! l) ! i
                       \<and> (\<exists>ms. map_of (communities (lvls ! l)) (path ! l) = Some ms
                             \<and> str_int (vertex_names ?df ! i) \<in> set ms))"
    and compat: "?rs \<noteq> [] \<longrightarrow>
                (\<exists>cm. compat_view hmap = Inr cm
                   \<and> (\<forall>k path. map_of hmap k = Some path \<longrightarrow>
                          map_of cm k
                            = Some \<lparr>macro_community = path ! 0,
                                    micro_community = last path\<rparr>))"
    by blast
  have "0 < length (vertex_names ?df)" unfolding vn by simp
  with paths obtain path where "map_of hmap (str_int (vertex_names ?df ! 0)) = Some path"
    and "length path = length ?rs" by blast
  then have p: "\<exists>path. map_of hmap (str_int 1) = Some path \<and> length path = 3"
    unfolding vn by simp
  from compat ne have cm: "\<exists>cm. compat_view hmap = Inr cm" by blast
  have "\<exists>hmap lvls. cluster (engine_init ?rs) ?fp ?df = Inr (hmap, lvls)
        \<and> map resolution lvls = [1 / 100, 1 / 10, 1]
        \<and> (\<exists>path. map_of hmap (str_int 1) = Some path \<and> length path = 3)
        \<and> (\<exists>cm. compat_view hmap = Inr cm)"
  proof (rule exI[of _ hmap], rule exI[of _ lvls], intro conjI)
    show "map resolution lvls = [1 / 100, 1 / 10, 1]" using res unfolding srt .
  qed (rule c p cm)+
  with r ne show ?thesis by (intro conjI)
qed

text \<open>
  Claim C7 as stated fails: on a projection without edges \<open>cluster\<close> returns a result.
\<close>

theorem cluster_empty_counterexample:
  "cluster (engine_init [1 / 100, 1 / 10, 1]) (\<lambda>df r. []) []
     = Inr ([], [\<lparr>resolution = 1 / 100, communities = []\<rparr>,
                 \<lparr>resolution = 1 / 10, communities = []\<rparr>,
                 \<lparr>resolution = 1, communities = []\<rparr>])"
  by (simp add: cluster_empty)

text \<open>
  Claim C7, amended. \<open>cluster\<close> checks nothing before the community detection and
  raises no error of its own on a projection without edges: the graph has no vertices,
  the detection runs once per resolution, and the result is the empty hierarchy map with
  one level without communities per resolution, in ascending order.
\<close>

theorem cluster_empty_projection:
  "vertex_names [] = []
   \<and> cluster (engine_init rs) find_partition []
       = Inr ([], map (\<lambda>r. \<lparr>resolution = r, communities = []\<rparr>) (sort rs))"
  by (simp add: cluster_empty vertex_names_def)

end
